theory Spec2Isabelle
  imports Main "HOL-Library.Sublist"
begin

section \<open>Replication endpoints (package endpoint)\<close>

text \<open>
  A shallow embedding of \<^verbatim>\<open>endpoint/endpoint.go\<close>: the local sending and receiving
  endpoints, the batch destruction of snapshots, the RPC stubs and the server-side
  handler. Packages \<^verbatim>\<open>zfs\<close>, \<^verbatim>\<open>replication/pdu\<close>, \<^verbatim>\<open>proto\<close> and \<^verbatim>\<open>streamrpc\<close> are
  used by the file but are not part of it: every function of theirs is a field of an
  environment record, so each theorem holds for every backend, codec and transport.
  Effects are explicit: a state holds the backend's world and the log of the calls made,
  each with the error it returned. Logging (\<^verbatim>\<open>getLogger(ctx)\<close>) is left out, and so is
  \<^verbatim>\<open>SnapshotReplicationStatus\<close> of the sender, which the handler reaches only through the
  endpoint it is given.
\<close>

subsection \<open>Data\<close>

text \<open>A dataset path is its sequence of components; a stream is a handle.\<close>

type_synonym DatasetPath = "string list"
type_synonym ReadCloser = nat
type_synonym bytes = "nat list"
type_synonym ZFSProperties = "(string \<times> string) list"

text \<open>
  Errors of package \<^verbatim>\<open>zfs\<close>. The source names the type \<^verbatim>\<open>*zfs.DatasetDoesNotExist\<close>;
  every other failure of the backend is \<open>ZFSError\<close>. \<open>zfs_Error\<close> is the text that
  \<^verbatim>\<open>err.Error()\<close> yields.
\<close>

datatype zfs_error =
    DatasetDoesNotExist (zfs_Error: string)
  | ZFSError (zfs_Error: string)

text \<open>
  The error values of the file, by where they are made: \<^verbatim>\<open>replication.NewFilteredError\<close>,
  \<^verbatim>\<open>errors.New\<close>, \<^verbatim>\<open>fmt.Errorf\<close> and \<^verbatim>\<open>errors.Errorf\<close> (format and argument),
  \<^verbatim>\<open>errors.Wrap\<close>, and the errors handed through from package zfs, from a filter or
  map, from a pdu conversion, from the codec and from the transport. \<open>Panic\<close> is a
  run-time panic, which ends the call.
\<close>

datatype error =
    FilteredError string
  | ErrorsNew string
  | FmtErrorf string string
  | ErrorsWrap error string
  | ZFSErr zfs_error
  | PolicyErr string
  | PduErr string
  | ProtoErr string
  | TransportErr string
  | Panic string

datatype FilesystemVersion_VersionType = FilesystemVersion_Snapshot | FilesystemVersion_Bookmark

datatype zfs_VersionType = Snapshot | Bookmark

text \<open>
  \<^verbatim>\<open>pdu.FilesystemVersion\<close>: the source reads the fields \<^verbatim>\<open>Type\<close> and \<^verbatim>\<open>Name\<close>;
  \<open>fsv_Creation\<close> stands for the fields of the message that the file does not read
  itself and hands to the conversion \<^verbatim>\<open>ZFSFilesystemVersion()\<close>.
\<close>

record pdu_FilesystemVersion =
  fsv_Type :: FilesystemVersion_VersionType
  fsv_Name :: string
  fsv_Creation :: string

text \<open>\<^verbatim>\<open>zfs.FilesystemVersion\<close>: the source writes the fields \<^verbatim>\<open>Type\<close> and \<^verbatim>\<open>Name\<close>.\<close>

record zfs_FilesystemVersion =
  zv_Type :: zfs_VersionType
  zv_Name :: string

record pdu_Filesystem =
  Filesystem_Path :: string

record SendReq =
  SendReq_Filesystem :: string
  SendReq_From :: string
  SendReq_To :: string

record SendRes =
  SendRes_ExpectedSize :: int

record ReceiveReq =
  ReceiveReq_Filesystem :: string

record DestroySnapshotsReq =
  DestroySnapshotsReq_Filesystem :: string
  DestroySnapshotsReq_Snapshots :: "pdu_FilesystemVersion list"

record DestroySnapshotRes =
  DestroySnapshotRes_Snapshot :: pdu_FilesystemVersion
  DestroySnapshotRes_Error :: string

record DestroySnapshotsRes =
  DestroySnapshotsRes_Results :: "DestroySnapshotRes list"

datatype SnapshotReplicationStatusReq_Op =
    SnapshotReplicationStatusReq_Get
  | SnapshotReplicationStatusReq_SetReplicated

record SnapshotReplicationStatusReq =
  StatusReq_Filesystem :: string
  StatusReq_Snapshot :: string
  StatusReq_Op :: SnapshotReplicationStatusReq_Op

record SnapshotReplicationStatusRes =
  StatusRes_Replicated :: bool

subsection \<open>Filters and maps\<close>

text \<open>
  \<^verbatim>\<open>FSFilter\<close> has the one method \<^verbatim>\<open>Filter\<close>, which passes, denies or fails.
  \<^verbatim>\<open>FSMap\<close> adds \<^verbatim>\<open>Map\<close> (a nil path is \<open>None\<close>), \<^verbatim>\<open>Invert\<close> and \<^verbatim>\<open>AsFilter\<close>.
\<close>

type_synonym FSFilter = "DatasetPath \<Rightarrow> string + bool"
type_synonym FilesystemVersionFilter = "zfs_FilesystemVersion \<Rightarrow> string + bool"

datatype FSMap = FSMap
  (fsmap_Filter: FSFilter)
  (fsmap_Map: "DatasetPath \<Rightarrow> string + DatasetPath option")
  (fsmap_Invert: "string + FSMap")
  (fsmap_AsFilter: FSFilter)

subsection \<open>The backend and the log of calls\<close>

text \<open>
  A logged call carries its arguments (filters apart) and the error it returned,
  \<open>None\<close> for success.
\<close>

datatype call =
    Call_ZFSListMapping "zfs_error option"
  | Call_ZFSListFilesystemVersions DatasetPath "zfs_error option"
  | Call_ZFSSendDry string string string "zfs_error option"
  | Call_ZFSSend string string string "zfs_error option"
  | Call_ZFSGet DatasetPath "string list" "zfs_error option"
  | Call_ZFSCreatePlaceholderFilesystem DatasetPath "zfs_error option"
  | Call_ZFSRecv string ReadCloser "string list" "zfs_error option"
  | Call_ZFSDestroyFilesystemVersion DatasetPath zfs_FilesystemVersion "zfs_error option"
  | Call_Close ReadCloser
  | Call_RequestReply string bytes "ReadCloser option" "string option"
  | Call_Invert "string option"

record 'w state =
  world :: 'w
  calls :: "call list"

text \<open>
  The functions, constants and methods of packages zfs and pdu that the file uses. Those
  that run the zfs binary take the world and return the new one.
\<close>

record 'w env =
  NewDatasetPath :: "string \<Rightarrow> zfs_error + DatasetPath"
  ToString :: "DatasetPath \<Rightarrow> string"
  ZREPL_PLACEHOLDER_PROPERTY_NAME :: string
  props_Get :: "ZFSProperties \<Rightarrow> string \<Rightarrow> string"
  IsPlaceholder :: "DatasetPath \<Rightarrow> string \<Rightarrow> bool \<times> zfs_error option"
  FilesystemVersionFromZFS :: "zfs_FilesystemVersion \<Rightarrow> pdu_FilesystemVersion"
  ZFSFilesystemVersion :: "pdu_FilesystemVersion \<Rightarrow> string + zfs_FilesystemVersion"
  ZFSListMapping :: "'w \<Rightarrow> FSFilter \<Rightarrow> (zfs_error + DatasetPath list) \<times> 'w"
  ZFSListFilesystemVersions ::
    "'w \<Rightarrow> DatasetPath \<Rightarrow> FilesystemVersionFilter \<Rightarrow> (zfs_error + zfs_FilesystemVersion list) \<times> 'w"
  ZFSSendDry :: "'w \<Rightarrow> string \<Rightarrow> string \<Rightarrow> string \<Rightarrow> (zfs_error + int) \<times> 'w"
  ZFSSend :: "'w \<Rightarrow> string \<Rightarrow> string \<Rightarrow> string \<Rightarrow> (zfs_error + ReadCloser) \<times> 'w"
  ZFSGet :: "'w \<Rightarrow> DatasetPath \<Rightarrow> string list \<Rightarrow> (zfs_error + ZFSProperties) \<times> 'w"
  ZFSCreatePlaceholderFilesystem :: "'w \<Rightarrow> DatasetPath \<Rightarrow> zfs_error option \<times> 'w"
  ZFSRecv :: "'w \<Rightarrow> string \<Rightarrow> ReadCloser \<Rightarrow> string list \<Rightarrow> zfs_error option \<times> 'w"
  ZFSDestroyFilesystemVersion ::
    "'w \<Rightarrow> DatasetPath \<Rightarrow> zfs_FilesystemVersion \<Rightarrow> zfs_error option \<times> 'w"

definition err_of :: "'e + 'a \<Rightarrow> 'e option" where
  "err_of r = (case r of Inl e \<Rightarrow> Some e | Inr _ \<Rightarrow> None)"

definition logged :: "'w state \<Rightarrow> 'w \<Rightarrow> call \<Rightarrow> 'w state" where
  "logged s w c = \<lparr>world = w, calls = calls s @ [c]\<rparr>"

definition call_ZFSListMapping ::
  "'w env \<Rightarrow> FSFilter \<Rightarrow> 'w state \<Rightarrow> (zfs_error + DatasetPath list) \<times> 'w state" where
  "call_ZFSListMapping z f s =
     (case ZFSListMapping z (world s) f of
        (r, w) \<Rightarrow> (r, logged s w (Call_ZFSListMapping (err_of r))))"

definition call_ZFSListFilesystemVersions ::
  "'w env \<Rightarrow> DatasetPath \<Rightarrow> FilesystemVersionFilter \<Rightarrow> 'w state
   \<Rightarrow> (zfs_error + zfs_FilesystemVersion list) \<times> 'w state" where
  "call_ZFSListFilesystemVersions z dp f s =
     (case ZFSListFilesystemVersions z (world s) dp f of
        (r, w) \<Rightarrow> (r, logged s w (Call_ZFSListFilesystemVersions dp (err_of r))))"

definition call_ZFSSendDry ::
  "'w env \<Rightarrow> string \<Rightarrow> string \<Rightarrow> string \<Rightarrow> 'w state \<Rightarrow> (zfs_error + int) \<times> 'w state" where
  "call_ZFSSendDry z fs from to s =
     (case ZFSSendDry z (world s) fs from to of
        (r, w) \<Rightarrow> (r, logged s w (Call_ZFSSendDry fs from to (err_of r))))"

definition call_ZFSSend ::
  "'w env \<Rightarrow> string \<Rightarrow> string \<Rightarrow> string \<Rightarrow> 'w state \<Rightarrow> (zfs_error + ReadCloser) \<times> 'w state" where
  "call_ZFSSend z fs from to s =
     (case ZFSSend z (world s) fs from to of
        (r, w) \<Rightarrow> (r, logged s w (Call_ZFSSend fs from to (err_of r))))"

definition call_ZFSGet ::
  "'w env \<Rightarrow> DatasetPath \<Rightarrow> string list \<Rightarrow> 'w state \<Rightarrow> (zfs_error + ZFSProperties) \<times> 'w state" where
  "call_ZFSGet z p names s =
     (case ZFSGet z (world s) p names of
        (r, w) \<Rightarrow> (r, logged s w (Call_ZFSGet p names (err_of r))))"

definition call_ZFSCreatePlaceholderFilesystem ::
  "'w env \<Rightarrow> DatasetPath \<Rightarrow> 'w state \<Rightarrow> zfs_error option \<times> 'w state" where
  "call_ZFSCreatePlaceholderFilesystem z p s =
     (case ZFSCreatePlaceholderFilesystem z (world s) p of
        (r, w) \<Rightarrow> (r, logged s w (Call_ZFSCreatePlaceholderFilesystem p r)))"

definition call_ZFSRecv ::
  "'w env \<Rightarrow> string \<Rightarrow> ReadCloser \<Rightarrow> string list \<Rightarrow> 'w state \<Rightarrow> zfs_error option \<times> 'w state" where
  "call_ZFSRecv z fs stream args s =
     (case ZFSRecv z (world s) fs stream args of
        (r, w) \<Rightarrow> (r, logged s w (Call_ZFSRecv fs stream args r)))"

definition call_ZFSDestroyFilesystemVersion ::
  "'w env \<Rightarrow> DatasetPath \<Rightarrow> zfs_FilesystemVersion \<Rightarrow> 'w state \<Rightarrow> zfs_error option \<times> 'w state" where
  "call_ZFSDestroyFilesystemVersion z lp v s =
     (case ZFSDestroyFilesystemVersion z (world s) lp v of
        (r, w) \<Rightarrow> (r, logged s w (Call_ZFSDestroyFilesystemVersion lp v r)))"

definition Close :: "ReadCloser \<Rightarrow> 'w state \<Rightarrow> 'w state" where
  "Close stream s = logged s (world s) (Call_Close stream)"

subsection \<open>doDestroySnapshots\<close>

text \<open>
  The first loop checks each requested version's kind and converts it; the first item
  that fails either ends the call. The second loop destroys every converted version and
  records the text of the backend's error, or the empty text.
\<close>

fun doDestroySnapshots_convert ::
  "'w env \<Rightarrow> pdu_FilesystemVersion list \<Rightarrow> error + zfs_FilesystemVersion list" where
  "doDestroySnapshots_convert z [] = Inr []"
| "doDestroySnapshots_convert z (fsv # snaps) =
     (if fsv_Type fsv \<noteq> FilesystemVersion_Snapshot
      then Inl (FmtErrorf ''version %q is not a snapshot'' (fsv_Name fsv))
      else case ZFSFilesystemVersion z fsv of
             Inl err \<Rightarrow> Inl (PduErr err)
           | Inr v \<Rightarrow>
               (case doDestroySnapshots_convert z snaps of
                  Inl err \<Rightarrow> Inl err
                | Inr fsvs \<Rightarrow> Inr (v # fsvs)))"

fun doDestroySnapshots_destroy ::
  "'w env \<Rightarrow> DatasetPath \<Rightarrow> zfs_FilesystemVersion list \<Rightarrow> 'w state
   \<Rightarrow> DestroySnapshotRes list \<times> 'w state" where
  "doDestroySnapshots_destroy z lp [] s = ([], s)"
| "doDestroySnapshots_destroy z lp (fsv # fsvs) s =
     (case call_ZFSDestroyFilesystemVersion z lp fsv s of
        (err, s1) \<Rightarrow>
          (let errMsg = (case err of None \<Rightarrow> [] | Some e \<Rightarrow> zfs_Error e);
               r = \<lparr>DestroySnapshotRes_Snapshot = FilesystemVersionFromZFS z fsv,
                    DestroySnapshotRes_Error = errMsg\<rparr>
           in case doDestroySnapshots_destroy z lp fsvs s1 of
                (results, s2) \<Rightarrow> (r # results, s2)))"

definition doDestroySnapshots ::
  "'w env \<Rightarrow> DatasetPath \<Rightarrow> pdu_FilesystemVersion list \<Rightarrow> 'w state
   \<Rightarrow> (error + DestroySnapshotsRes) \<times> 'w state" where
  "doDestroySnapshots z lp snaps s =
     (case doDestroySnapshots_convert z snaps of
        Inl err \<Rightarrow> (Inl err, s)
      | Inr fsvs \<Rightarrow>
          (case doDestroySnapshots_destroy z lp fsvs s of
             (results, s') \<Rightarrow> (Inr \<lparr>DestroySnapshotsRes_Results = results\<rparr>, s')))"

subsection \<open>Sender\<close>

record Sender =
  Sender_FSFilter :: FSFilter
  Sender_FilesystemVersionFilter :: FilesystemVersionFilter

definition NewSender :: "FSFilter \<Rightarrow> FilesystemVersionFilter \<Rightarrow> Sender" where
  "NewSender fsf fsvf = \<lparr>Sender_FSFilter = fsf, Sender_FilesystemVersionFilter = fsvf\<rparr>"

definition Sender_ListFilesystems ::
  "'w env \<Rightarrow> Sender \<Rightarrow> 'w state \<Rightarrow> (error + pdu_Filesystem list) \<times> 'w state" where
  "Sender_ListFilesystems z p s =
     (case call_ZFSListMapping z (Sender_FSFilter p) s of
        (Inl err, s1) \<Rightarrow> (Inl (ZFSErr err), s1)
      | (Inr fss, s1) \<Rightarrow> (Inr (map (\<lambda>fs. \<lparr>Filesystem_Path = ToString z fs\<rparr>) fss), s1))"

definition Sender_ListFilesystemVersions ::
  "'w env \<Rightarrow> Sender \<Rightarrow> string \<Rightarrow> 'w state \<Rightarrow> (error + pdu_FilesystemVersion list) \<times> 'w state" where
  "Sender_ListFilesystemVersions z p fs s =
     (case NewDatasetPath z fs of
        Inl err \<Rightarrow> (Inl (ZFSErr err), s)
      | Inr dp \<Rightarrow>
          (case Sender_FSFilter p dp of
             Inl err \<Rightarrow> (Inl (PolicyErr err), s)
           | Inr pass \<Rightarrow>
               if \<not> pass then (Inl (FilteredError fs), s)
               else (case call_ZFSListFilesystemVersions z dp (Sender_FilesystemVersionFilter p) s of
                       (Inl err, s1) \<Rightarrow> (Inl (ZFSErr err), s1)
                     | (Inr fsvs, s1) \<Rightarrow> (Inr (map (FilesystemVersionFromZFS z) fsvs), s1))))"

definition Sender_Send ::
  "'w env \<Rightarrow> Sender \<Rightarrow> SendReq \<Rightarrow> 'w state \<Rightarrow> (error + SendRes \<times> ReadCloser) \<times> 'w state" where
  "Sender_Send z p r s =
     (case NewDatasetPath z (SendReq_Filesystem r) of
        Inl err \<Rightarrow> (Inl (ZFSErr err), s)
      | Inr dp \<Rightarrow>
          (case Sender_FSFilter p dp of
             Inl err \<Rightarrow> (Inl (PolicyErr err), s)
           | Inr pass \<Rightarrow>
               if \<not> pass then (Inl (FilteredError (SendReq_Filesystem r)), s)
               else (case call_ZFSSendDry z (SendReq_Filesystem r) (SendReq_From r) (SendReq_To r) s of
                       (Inl err, s1) \<Rightarrow> (Inl (ZFSErr err), s1)
                     | (Inr sz, s1) \<Rightarrow>
                         (case call_ZFSSend z (SendReq_Filesystem r) (SendReq_From r) (SendReq_To r) s1 of
                            (Inl err, s2) \<Rightarrow> (Inl (ZFSErr err), s2)
                          | (Inr stream, s2) \<Rightarrow>
                              (Inr (\<lparr>SendRes_ExpectedSize = sz\<rparr>, stream), s2)))))"

definition Sender_DestroySnapshots ::
  "'w env \<Rightarrow> Sender \<Rightarrow> DestroySnapshotsReq \<Rightarrow> 'w state
   \<Rightarrow> (error + DestroySnapshotsRes) \<times> 'w state" where
  "Sender_DestroySnapshots z p req s =
     (case NewDatasetPath z (DestroySnapshotsReq_Filesystem req) of
        Inl err \<Rightarrow> (Inl (ZFSErr err), s)
      | Inr dp \<Rightarrow>
          (case Sender_FSFilter p dp of
             Inl err \<Rightarrow> (Inl (PolicyErr err), s)
           | Inr pass \<Rightarrow>
               if \<not> pass then (Inl (FilteredError (DestroySnapshotsReq_Filesystem req)), s)
               else doDestroySnapshots z dp (DestroySnapshotsReq_Snapshots req) s))"

subsection \<open>Receiver\<close>

record Receiver =
  Receiver_fsmapInv :: FSMap
  Receiver_fsmap :: FSMap
  Receiver_fsvf :: FilesystemVersionFilter

text \<open>\<^verbatim>\<open>fsmap.Invert()\<close> is logged, so that the calls of it can be counted.\<close>

definition call_Invert :: "FSMap \<Rightarrow> 'w state \<Rightarrow> (string + FSMap) \<times> 'w state" where
  "call_Invert m s = (fsmap_Invert m, logged s (world s) (Call_Invert (err_of (fsmap_Invert m))))"

definition NewReceiver ::
  "FSMap \<Rightarrow> FilesystemVersionFilter \<Rightarrow> 'w state \<Rightarrow> (error + Receiver) \<times> 'w state" where
  "NewReceiver fsmap fsvf s =
     (case call_Invert fsmap s of
        (Inl err, s1) \<Rightarrow> (Inl (PolicyErr err), s1)
      | (Inr fsmapInv, s1) \<Rightarrow>
          (Inr \<lparr>Receiver_fsmapInv = fsmapInv, Receiver_fsmap = fsmap, Receiver_fsvf = fsvf\<rparr>, s1))"

text \<open>
  ListFilesystems lists what the filter view of the inverse map passes, and maps each
  path back with the inverse map that the receiver holds. The source calls
  \<^verbatim>\<open>mapped.ToString()\<close> without a nil check; a nil path there is modelled as a panic.
\<close>

fun Receiver_ListFilesystems_map ::
  "'w env \<Rightarrow> FSMap \<Rightarrow> DatasetPath list \<Rightarrow> error + pdu_Filesystem list" where
  "Receiver_ListFilesystems_map z fsmapInv [] = Inr []"
| "Receiver_ListFilesystems_map z fsmapInv (a # filtered) =
     (case fsmap_Map fsmapInv a of
        Inl err \<Rightarrow> Inl (PolicyErr err)
      | Inr None \<Rightarrow> Inl (Panic ''nil pointer dereference'')
      | Inr (Some mapped) \<Rightarrow>
          (case Receiver_ListFilesystems_map z fsmapInv filtered of
             Inl err \<Rightarrow> Inl err
           | Inr fss \<Rightarrow> Inr (\<lparr>Filesystem_Path = ToString z mapped\<rparr> # fss)))"

definition Receiver_ListFilesystems ::
  "'w env \<Rightarrow> Receiver \<Rightarrow> 'w state \<Rightarrow> (error + pdu_Filesystem list) \<times> 'w state" where
  "Receiver_ListFilesystems z e s =
     (case call_ZFSListMapping z (fsmap_AsFilter (Receiver_fsmapInv e)) s of
        (Inl err, s1) \<Rightarrow> (Inl (ErrorsWrap (ZFSErr err) ''error checking client permission''), s1)
      | (Inr filtered, s1) \<Rightarrow>
          (Receiver_ListFilesystems_map z (Receiver_fsmapInv e) filtered, s1))"

definition Receiver_ListFilesystemVersions ::
  "'w env \<Rightarrow> Receiver \<Rightarrow> string \<Rightarrow> 'w state \<Rightarrow> (error + pdu_FilesystemVersion list) \<times> 'w state" where
  "Receiver_ListFilesystemVersions z e fs s =
     (case NewDatasetPath z fs of
        Inl err \<Rightarrow> (Inl (ZFSErr err), s)
      | Inr p \<Rightarrow>
          (case fsmap_Map (Receiver_fsmap e) p of
             Inl err \<Rightarrow> (Inl (PolicyErr err), s)
           | Inr None \<Rightarrow> (Inl (ErrorsNew ''access to filesystem denied''), s)
           | Inr (Some lp) \<Rightarrow>
               (case call_ZFSListFilesystemVersions z lp (Receiver_fsvf e) s of
                  (Inl err, s1) \<Rightarrow> (Inl (ZFSErr err), s1)
                | (Inr fsvs, s1) \<Rightarrow> (Inr (map (FilesystemVersionFromZFS z) fsvs), s1))))"

text \<open>
  Modelled from the spec: \<^verbatim>\<open>zfs.DatasetPathForest\<close>, whose code is not in the file. The
  forest that holds the one path \<open>lp\<close> is "the conceptual tree of the mapped path's
  ancestors", a chain of the prefixes of \<open>lp\<close>; \<^verbatim>\<open>WalkTopDown\<close> walks it "top-down",
  calls the visitor on each node and goes on to the node's child when the visitor
  returns true (the source names the visitor's result \<^verbatim>\<open>visitChildTree\<close>). The
  arguments are the path of the parent node and the components still below it.
\<close>

fun WalkTopDown ::
  "(DatasetPath \<Rightarrow> 's \<Rightarrow> bool \<times> 's) \<Rightarrow> DatasetPath \<Rightarrow> string list \<Rightarrow> 's \<Rightarrow> 's" where
  "WalkTopDown visitor parent [] s = s"
| "WalkTopDown visitor parent (c # cs) s =
     (case visitor (parent @ [c]) s of
        (visitChildTree, s') \<Rightarrow>
          if visitChildTree then WalkTopDown visitor (parent @ [c]) cs s' else s')"

text \<open>
  The visitor that Receive passes to the walk. Its state is the variable \<^verbatim>\<open>visitErr\<close>
  of the enclosing function and the backend.
\<close>

definition Receive_visitor ::
  "'w env \<Rightarrow> DatasetPath \<Rightarrow> DatasetPath \<Rightarrow> zfs_error option \<times> 'w state
   \<Rightarrow> bool \<times> zfs_error option \<times> 'w state" where
  "Receive_visitor z lp vPath vs =
     (case vs of (visitErr, s) \<Rightarrow>
        if vPath = lp then (False, visitErr, s)
        else (case call_ZFSGet z vPath [ZREPL_PLACEHOLDER_PROPERTY_NAME z] s of
                (Inl err, s1) \<Rightarrow>
                  (case call_ZFSCreatePlaceholderFilesystem z vPath s1 of
                     (Some err, s2) \<Rightarrow> (False, Some err, s2)
                   | (None, s2) \<Rightarrow> (True, visitErr, s2))
              | (Inr props, s1) \<Rightarrow> (True, visitErr, s1)))"

definition Receive_repair ::
  "'w env \<Rightarrow> DatasetPath \<Rightarrow> 'w state \<Rightarrow> zfs_error option \<times> 'w state" where
  "Receive_repair z lp s = WalkTopDown (Receive_visitor z lp) [] lp (None, s)"

definition Receive_recv ::
  "'w env \<Rightarrow> DatasetPath \<Rightarrow> ReadCloser \<Rightarrow> 'w state \<Rightarrow> error option \<times> 'w state" where
  "Receive_recv z lp sendStream s =
     (case call_ZFSGet z lp [ZREPL_PLACEHOLDER_PROPERTY_NAME z] s of
        (got, s1) \<Rightarrow>
          (let needForceRecv =
                 (case got of
                    Inl err \<Rightarrow> False
                  | Inr props \<Rightarrow>
                      fst (IsPlaceholder z lp (props_Get z props (ZREPL_PLACEHOLDER_PROPERTY_NAME z))));
               args = (if needForceRecv then [''-F''] else [])
           in case call_ZFSRecv z (ToString z lp) sendStream args s1 of
                (Some err, s2) \<Rightarrow> (Some (ZFSErr err), s2)
              | (None, s2) \<Rightarrow> (None, s2)))"

definition Receive_body ::
  "'w env \<Rightarrow> Receiver \<Rightarrow> ReceiveReq \<Rightarrow> ReadCloser \<Rightarrow> 'w state \<Rightarrow> error option \<times> 'w state" where
  "Receive_body z e req sendStream s =
     (case NewDatasetPath z (ReceiveReq_Filesystem req) of
        Inl err \<Rightarrow> (Some (ZFSErr err), s)
      | Inr p \<Rightarrow>
          (case fsmap_Map (Receiver_fsmap e) p of
             Inl err \<Rightarrow> (Some (PolicyErr err), s)
           | Inr None \<Rightarrow> (Some (ErrorsNew ''receive to filesystem denied''), s)
           | Inr (Some lp) \<Rightarrow>
               (case Receive_repair z lp s of
                  (Some visitErr, s1) \<Rightarrow> (Some (ZFSErr visitErr), s1)
                | (None, s1) \<Rightarrow> Receive_recv z lp sendStream s1)))"

text \<open>\<^verbatim>\<open>defer sendStream.Close()\<close>: the stream is closed after the body, on every path.\<close>

definition Receiver_Receive ::
  "'w env \<Rightarrow> Receiver \<Rightarrow> ReceiveReq \<Rightarrow> ReadCloser \<Rightarrow> 'w state \<Rightarrow> error option \<times> 'w state" where
  "Receiver_Receive z e req sendStream s =
     (case Receive_body z e req sendStream s of (err, s') \<Rightarrow> (err, Close sendStream s'))"

definition Receiver_DestroySnapshots ::
  "'w env \<Rightarrow> Receiver \<Rightarrow> DestroySnapshotsReq \<Rightarrow> 'w state
   \<Rightarrow> (error + DestroySnapshotsRes) \<times> 'w state" where
  "Receiver_DestroySnapshots z e req s =
     (case NewDatasetPath z (DestroySnapshotsReq_Filesystem req) of
        Inl err \<Rightarrow> (Inl (ZFSErr err), s)
      | Inr dp \<Rightarrow>
          (case fsmap_Map (Receiver_fsmap e) dp of
             Inl err \<Rightarrow> (Inl (PolicyErr err), s)
           | Inr None \<Rightarrow> (Inl (ErrorsNew ''access to filesystem denied''), s)
           | Inr (Some lp) \<Rightarrow> doDestroySnapshots z lp (DestroySnapshotsReq_Snapshots req) s))"

subsection \<open>RPC stubs\<close>

definition RPCListFilesystems :: string where "RPCListFilesystems = ''ListFilesystems''"
definition RPCListFilesystemVersions :: string where
  "RPCListFilesystemVersions = ''ListFilesystemVersions''"
definition RPCReceive :: string where "RPCReceive = ''Receive''"
definition RPCSend :: string where "RPCSend = ''Send''"
definition RPCSDestroySnapshots :: string where "RPCSDestroySnapshots = ''DestroySnapshots''"
definition RPCSnapshotReplicationStatus :: string where
  "RPCSnapshotReplicationStatus = ''SnapshotReplicationStatus''"

record ListFilesystemRes =
  ListFilesystemRes_Filesystems :: "pdu_Filesystem list"

record ListFilesystemVersionsReq =
  ListFilesystemVersionsReq_Filesystem :: string

record ListFilesystemVersionsRes =
  ListFilesystemVersionsRes_Versions :: "pdu_FilesystemVersion list"

text \<open>The messages that \<^verbatim>\<open>proto.Marshal\<close> is given in the file.\<close>

datatype Message =
    Msg_ListFilesystemReq
  | Msg_ListFilesystemRes ListFilesystemRes
  | Msg_ListFilesystemVersionsReq ListFilesystemVersionsReq
  | Msg_ListFilesystemVersionsRes ListFilesystemVersionsRes
  | Msg_SendReq SendReq
  | Msg_SendRes SendRes
  | Msg_ReceiveReq ReceiveReq
  | Msg_ReceiveRes
  | Msg_DestroySnapshotsReq DestroySnapshotsReq
  | Msg_DestroySnapshotsRes DestroySnapshotsRes
  | Msg_SnapshotReplicationStatusRes SnapshotReplicationStatusRes

text \<open>
  Package proto: \<^verbatim>\<open>Marshal\<close>, and \<^verbatim>\<open>Unmarshal\<close> into each type of message that the
  file decodes.
\<close>

record proto =
  Marshal :: "Message \<Rightarrow> string + bytes"
  Unmarshal_ListFilesystemReq :: "bytes \<Rightarrow> string + unit"
  Unmarshal_ListFilesystemRes :: "bytes \<Rightarrow> string + ListFilesystemRes"
  Unmarshal_ListFilesystemVersionsReq :: "bytes \<Rightarrow> string + ListFilesystemVersionsReq"
  Unmarshal_ListFilesystemVersionsRes :: "bytes \<Rightarrow> string + ListFilesystemVersionsRes"
  Unmarshal_SendReq :: "bytes \<Rightarrow> string + SendReq"
  Unmarshal_SendRes :: "bytes \<Rightarrow> string + SendRes"
  Unmarshal_ReceiveReq :: "bytes \<Rightarrow> string + ReceiveReq"
  Unmarshal_ReceiveRes :: "bytes \<Rightarrow> string + unit"
  Unmarshal_DestroySnapshotsReq :: "bytes \<Rightarrow> string + DestroySnapshotsReq"
  Unmarshal_DestroySnapshotsRes :: "bytes \<Rightarrow> string + DestroySnapshotsRes"
  Unmarshal_SnapshotReplicationStatusReq :: "bytes \<Rightarrow> string + SnapshotReplicationStatusReq"

text \<open>
  \<^verbatim>\<open>streamrpc.Client\<close>: one request and its reply, a structured buffer and a stream that
  may be nil in each direction. The world is the connection and the peer behind it.
\<close>

record 'w Remote =
  RequestReply ::
    "'w \<Rightarrow> string \<Rightarrow> bytes \<Rightarrow> ReadCloser option \<Rightarrow> (string + bytes \<times> ReadCloser option) \<times> 'w"

definition call_RequestReply ::
  "'w Remote \<Rightarrow> string \<Rightarrow> bytes \<Rightarrow> ReadCloser option \<Rightarrow> 'w state
   \<Rightarrow> (string + bytes \<times> ReadCloser option) \<times> 'w state" where
  "call_RequestReply c endpoint b stream s =
     (case RequestReply c (world s) endpoint b stream of
        (r, w) \<Rightarrow> (r, logged s w (Call_RequestReply endpoint b stream (err_of r))))"

definition Remote_ListFilesystems ::
  "proto \<Rightarrow> 'w Remote \<Rightarrow> 'w state \<Rightarrow> (error + pdu_Filesystem list) \<times> 'w state" where
  "Remote_ListFilesystems pr c s =
     (case Marshal pr Msg_ListFilesystemReq of
        Inl err \<Rightarrow> (Inl (ProtoErr err), s)
      | Inr b \<Rightarrow>
          (case call_RequestReply c RPCListFilesystems b None s of
             (Inl err, s1) \<Rightarrow> (Inl (TransportErr err), s1)
           | (Inr (rb, Some rs), s1) \<Rightarrow>
               (Inl (ErrorsNew ''response contains unexpected stream''), Close rs s1)
           | (Inr (rb, None), s1) \<Rightarrow>
               (case Unmarshal_ListFilesystemRes pr rb of
                  Inl err \<Rightarrow> (Inl (ProtoErr err), s1)
                | Inr res \<Rightarrow> (Inr (ListFilesystemRes_Filesystems res), s1))))"

definition Remote_ListFilesystemVersions ::
  "proto \<Rightarrow> 'w Remote \<Rightarrow> string \<Rightarrow> 'w state
   \<Rightarrow> (error + pdu_FilesystemVersion list) \<times> 'w state" where
  "Remote_ListFilesystemVersions pr c fs s =
     (case Marshal pr (Msg_ListFilesystemVersionsReq \<lparr>ListFilesystemVersionsReq_Filesystem = fs\<rparr>) of
        Inl err \<Rightarrow> (Inl (ProtoErr err), s)
      | Inr b \<Rightarrow>
          (case call_RequestReply c RPCListFilesystemVersions b None s of
             (Inl err, s1) \<Rightarrow> (Inl (TransportErr err), s1)
           | (Inr (rb, Some rs), s1) \<Rightarrow>
               (Inl (ErrorsNew ''response contains unexpected stream''), Close rs s1)
           | (Inr (rb, None), s1) \<Rightarrow>
               (case Unmarshal_ListFilesystemVersionsRes pr rb of
                  Inl err \<Rightarrow> (Inl (ProtoErr err), s1)
                | Inr res \<Rightarrow> (Inr (ListFilesystemVersionsRes_Versions res), s1))))"

definition Remote_Send ::
  "proto \<Rightarrow> 'w Remote \<Rightarrow> SendReq \<Rightarrow> 'w state \<Rightarrow> (error + SendRes \<times> ReadCloser) \<times> 'w state" where
  "Remote_Send pr c r s =
     (case Marshal pr (Msg_SendReq r) of
        Inl err \<Rightarrow> (Inl (ProtoErr err), s)
      | Inr b \<Rightarrow>
          (case call_RequestReply c RPCSend b None s of
             (Inl err, s1) \<Rightarrow> (Inl (TransportErr err), s1)
           | (Inr (rb, None), s1) \<Rightarrow>
               (Inl (ErrorsNew ''response does not contain a stream''), s1)
           | (Inr (rb, Some rs), s1) \<Rightarrow>
               (case Unmarshal_SendRes pr rb of
                  Inl err \<Rightarrow> (Inl (ProtoErr err), Close rs s1)
                | Inr res \<Rightarrow> (Inr (res, rs), s1))))"

definition Remote_Receive_body ::
  "proto \<Rightarrow> 'w Remote \<Rightarrow> ReceiveReq \<Rightarrow> ReadCloser \<Rightarrow> 'w state \<Rightarrow> error option \<times> 'w state" where
  "Remote_Receive_body pr c r sendStream s =
     (case Marshal pr (Msg_ReceiveReq r) of
        Inl err \<Rightarrow> (Some (ProtoErr err), s)
      | Inr b \<Rightarrow>
          (case call_RequestReply c RPCReceive b (Some sendStream) s of
             (Inl err, s1) \<Rightarrow> (Some (TransportErr err), s1)
           | (Inr (rb, Some rs), s1) \<Rightarrow>
               (Some (ErrorsNew ''response contains unexpected stream''), Close rs s1)
           | (Inr (rb, None), s1) \<Rightarrow>
               (case Unmarshal_ReceiveRes pr rb of
                  Inl err \<Rightarrow> (Some (ProtoErr err), s1)
                | Inr res \<Rightarrow> (None, s1))))"

definition Remote_Receive ::
  "proto \<Rightarrow> 'w Remote \<Rightarrow> ReceiveReq \<Rightarrow> ReadCloser \<Rightarrow> 'w state \<Rightarrow> error option \<times> 'w state" where
  "Remote_Receive pr c r sendStream s =
     (case Remote_Receive_body pr c r sendStream s of (err, s') \<Rightarrow> (err, Close sendStream s'))"

definition Remote_DestroySnapshots ::
  "proto \<Rightarrow> 'w Remote \<Rightarrow> DestroySnapshotsReq \<Rightarrow> 'w state
   \<Rightarrow> (error + DestroySnapshotsRes) \<times> 'w state" where
  "Remote_DestroySnapshots pr c r s =
     (case Marshal pr (Msg_DestroySnapshotsReq r) of
        Inl err \<Rightarrow> (Inl (ProtoErr err), s)
      | Inr b \<Rightarrow>
          (case call_RequestReply c RPCSDestroySnapshots b None s of
             (Inl err, s1) \<Rightarrow> (Inl (TransportErr err), s1)
           | (Inr (rb, Some rs), s1) \<Rightarrow>
               (Inl (ErrorsNew ''response contains unexpected stream''), Close rs s1)
           | (Inr (rb, None), s1) \<Rightarrow>
               (case Unmarshal_DestroySnapshotsRes pr rb of
                  Inl err \<Rightarrow> (Inl (ProtoErr err), s1)
                | Inr res \<Rightarrow> (Inr res, s1))))"

subsection \<open>Handler\<close>

text \<open>
  \<^verbatim>\<open>replication.Endpoint\<close> as the handler sees it: the three methods every endpoint
  has, and the methods of \<^verbatim>\<open>replication.Sender\<close> and \<^verbatim>\<open>replication.Receiver\<close>, which
  the type assertions \<^verbatim>\<open>a.ep.(replication.Sender)\<close> and \<^verbatim>\<open>a.ep.(replication.Receiver)\<close>
  find or do not find. The endpoint's state is any type.
\<close>

record 's Sender_methods =
  ep_Send :: "SendReq \<Rightarrow> 's \<Rightarrow> (error + SendRes \<times> ReadCloser option) \<times> 's"
  ep_SnapshotReplicationStatus ::
    "SnapshotReplicationStatusReq \<Rightarrow> 's \<Rightarrow> (error + SnapshotReplicationStatusRes) \<times> 's"

record 's Receiver_methods =
  ep_Receive :: "ReceiveReq \<Rightarrow> ReadCloser option \<Rightarrow> 's \<Rightarrow> error option \<times> 's"

record 's Endpoint =
  ep_ListFilesystems :: "'s \<Rightarrow> (error + pdu_Filesystem list) \<times> 's"
  ep_ListFilesystemVersions :: "string \<Rightarrow> 's \<Rightarrow> (error + pdu_FilesystemVersion list) \<times> 's"
  ep_DestroySnapshots :: "DestroySnapshotsReq \<Rightarrow> 's \<Rightarrow> (error + DestroySnapshotsRes) \<times> 's"
  ep_as_Sender :: "'s Sender_methods option"
  ep_as_Receiver :: "'s Receiver_methods option"

definition no_handler :: error where
  "no_handler = ErrorsNew ''no handler for given endpoint''"

definition marshal_reply ::
  "proto \<Rightarrow> Message \<Rightarrow> ReadCloser option \<Rightarrow> error + bytes \<times> ReadCloser option" where
  "marshal_reply pr res stream =
     (case Marshal pr res of
        Inl err \<Rightarrow> Inl (ProtoErr err)
      | Inr b \<Rightarrow> Inr (b, stream))"

definition Handle ::
  "proto \<Rightarrow> 's Endpoint \<Rightarrow> string \<Rightarrow> bytes \<Rightarrow> ReadCloser option \<Rightarrow> 's
   \<Rightarrow> (error + bytes \<times> ReadCloser option) \<times> 's" where
  "Handle pr ep endpoint reqStructured reqStream s =
     (if endpoint = RPCListFilesystems then
        (case Unmarshal_ListFilesystemReq pr reqStructured of
           Inl err \<Rightarrow> (Inl (ProtoErr err), s)
         | Inr req \<Rightarrow>
             (case ep_ListFilesystems ep s of
                (Inl err, s1) \<Rightarrow> (Inl err, s1)
              | (Inr fsses, s1) \<Rightarrow>
                  (marshal_reply pr
                     (Msg_ListFilesystemRes \<lparr>ListFilesystemRes_Filesystems = fsses\<rparr>) None, s1)))
      else if endpoint = RPCListFilesystemVersions then
        (case Unmarshal_ListFilesystemVersionsReq pr reqStructured of
           Inl err \<Rightarrow> (Inl (ProtoErr err), s)
         | Inr req \<Rightarrow>
             (case ep_ListFilesystemVersions ep (ListFilesystemVersionsReq_Filesystem req) s of
                (Inl err, s1) \<Rightarrow> (Inl err, s1)
              | (Inr fsvs, s1) \<Rightarrow>
                  (marshal_reply pr
                     (Msg_ListFilesystemVersionsRes \<lparr>ListFilesystemVersionsRes_Versions = fsvs\<rparr>)
                     None, s1)))
      else if endpoint = RPCSend then
        (case ep_as_Sender ep of
           None \<Rightarrow> (Inl no_handler, s)
         | Some sender \<Rightarrow>
             (case Unmarshal_SendReq pr reqStructured of
                Inl err \<Rightarrow> (Inl (ProtoErr err), s)
              | Inr req \<Rightarrow>
                  (case ep_Send sender req s of
                     (Inl err, s1) \<Rightarrow> (Inl err, s1)
                   | (Inr (res, sendStream), s1) \<Rightarrow>
                       (marshal_reply pr (Msg_SendRes res) sendStream, s1))))
      else if endpoint = RPCReceive then
        (case ep_as_Receiver ep of
           None \<Rightarrow> (Inl no_handler, s)
         | Some receiver \<Rightarrow>
             (case Unmarshal_ReceiveReq pr reqStructured of
                Inl err \<Rightarrow> (Inl (ProtoErr err), s)
              | Inr req \<Rightarrow>
                  (case ep_Receive receiver req reqStream s of
                     (Some err, s1) \<Rightarrow> (Inl err, s1)
                   | (None, s1) \<Rightarrow> (marshal_reply pr Msg_ReceiveRes None, s1))))
      else if endpoint = RPCSDestroySnapshots then
        (case Unmarshal_DestroySnapshotsReq pr reqStructured of
           Inl err \<Rightarrow> (Inl (ProtoErr err), s)
         | Inr req \<Rightarrow>
             (case ep_DestroySnapshots ep req s of
                (Inl err, s1) \<Rightarrow> (Inl err, s1)
              | (Inr res, s1) \<Rightarrow> (marshal_reply pr (Msg_DestroySnapshotsRes res) None, s1)))
      else if endpoint = RPCSnapshotReplicationStatus then
        (case ep_as_Sender ep of
           None \<Rightarrow> (Inl no_handler, s)
         | Some sender \<Rightarrow>
             (case Unmarshal_SnapshotReplicationStatusReq pr reqStructured of
                Inl err \<Rightarrow> (Inl (ProtoErr err), s)
              | Inr req \<Rightarrow>
                  (case ep_SnapshotReplicationStatus sender req s of
                     (Inl err, s1) \<Rightarrow> (Inl err, s1)
                   | (Inr res, s1) \<Rightarrow>
                       (marshal_reply pr (Msg_SnapshotReplicationStatusRes res) None, s1))))
      else (Inl no_handler, s))"

subsection \<open>The counting semaphore\<close>

text \<open>
  Modelled from the spec: the counting semaphore of package semaphore (\<^verbatim>\<open>New\<close>,
  \<^verbatim>\<open>Acquire\<close>, \<^verbatim>\<open>Release\<close>), whose code is not among the sources; only its test is.
  The model is the semaphore together with the operations that use it, run as
  interleaved atomic steps. An operation has not yet called \<^verbatim>\<open>Acquire\<close>, is blocked in
  it, holds a ticket, has released its ticket, or got the cancellation error.
\<close>

datatype phase = Idle | Waiting | Holding | Released | Cancelled

text \<open>
  Modelled from the spec: "a counting gate initialized with a fixed capacity N", and
  the phase of each of the operations that use it.
\<close>

record semaphore =
  capacity :: nat
  phases :: "phase list"

text \<open>Modelled from the spec: a new semaphore of capacity \<open>N\<close>; no operation of the \<open>M\<close> has called it.\<close>

definition New :: "nat \<Rightarrow> nat \<Rightarrow> semaphore" where
  "New N M = \<lparr>capacity = N, phases = replicate M Idle\<rparr>"

text \<open>
  The tickets outstanding; the operations that were given a ticket; those that have
  released theirs; those that have called \<^verbatim>\<open>Acquire\<close>; and those that called it and
  were given none.
\<close>

definition outstanding :: "semaphore \<Rightarrow> nat" where
  "outstanding g = length (filter (\<lambda>p. p = Holding) (phases g))"

definition admitted :: "semaphore \<Rightarrow> nat" where
  "admitted g = length (filter (\<lambda>p. p = Holding \<or> p = Released) (phases g))"

definition released :: "semaphore \<Rightarrow> nat" where
  "released g = length (filter (\<lambda>p. p = Released) (phases g))"

definition nonidle :: "semaphore \<Rightarrow> nat" where
  "nonidle g = length (filter (\<lambda>p. p \<noteq> Idle) (phases g))"

definition refused :: "semaphore \<Rightarrow> nat" where
  "refused g = length (filter (\<lambda>p. p = Waiting \<or> p = Cancelled) (phases g))"

text \<open>
  Modelled from the spec: the steps. \<open>Acquire i\<close>: operation \<open>i\<close> calls \<^verbatim>\<open>Acquire(ctx)\<close>.
  \<open>Admit i\<close>: its blocked call returns a ticket. \<open>Cancel i\<close>: its context ends while it
  is blocked, and the call returns the cancellation error. \<open>Release i\<close>: it calls
  \<^verbatim>\<open>Release()\<close> on its ticket.
\<close>

datatype sem_event = Acquire nat | Admit nat | Cancel nat | Release nat

text \<open>Modelled from the spec: the "cancellation error" that \<^verbatim>\<open>Acquire\<close> can return.\<close>

datatype acquire_error = ContextCanceled

text \<open>Modelled from the spec: operation \<open>i\<close> moves to phase \<open>p\<close>.\<close>

definition set_phase :: "semaphore \<Rightarrow> nat \<Rightarrow> phase \<Rightarrow> semaphore" where
  "set_phase g i p = g\<lparr>phases := (phases g)[i := p]\<rparr>"

text \<open>
  Modelled from the spec: "Acquire(ctx) blocks the calling operation until a slot is
  free or the context is cancelled; it returns a releasable ticket on success, or a
  cancellation error if the context ends first. Release() on a ticket returns its slot;
  calling it more than once per ticket must not over-free the gate." A call that finds
  a slot free returns at once; a blocked call may be admitted, in any order, whenever a
  slot is free. A step that is not possible in a state is \<open>None\<close>.
\<close>

fun step :: "semaphore \<Rightarrow> sem_event \<Rightarrow> semaphore option" where
  "step g (Acquire i) =
     (if i < length (phases g) \<and> phases g ! i = Idle
      then Some (set_phase g i (if outstanding g < capacity g then Holding else Waiting))
      else None)"
| "step g (Admit i) =
     (if i < length (phases g) \<and> phases g ! i = Waiting \<and> outstanding g < capacity g
      then Some (set_phase g i Holding) else None)"
| "step g (Cancel i) =
     (if i < length (phases g) \<and> phases g ! i = Waiting
      then Some (set_phase g i Cancelled) else None)"
| "step g (Release i) =
     (if i < length (phases g) \<and> phases g ! i = Holding then Some (set_phase g i Released)
      else if i < length (phases g) \<and> phases g ! i = Released then Some g
      else None)"

text \<open>Modelled from the spec: a schedule, the steps of all operations in the order they happen.\<close>

fun run :: "semaphore \<Rightarrow> sem_event list \<Rightarrow> semaphore option" where
  "run g [] = Some g"
| "run g (ev # evs) = (case step g ev of None \<Rightarrow> None | Some g' \<Rightarrow> run g' evs)"

text \<open>
  Modelled from the spec: what the call of \<^verbatim>\<open>Acquire\<close> by operation \<open>i\<close> has returned: nothing
  yet, a ticket, or the cancellation error.
\<close>

definition Acquire_result :: "semaphore \<Rightarrow> nat \<Rightarrow> (acquire_error + nat) option" where
  "Acquire_result g i =
     (case phases g ! i of
        Idle \<Rightarrow> None | Waiting \<Rightarrow> None
      | Holding \<Rightarrow> Some (Inr i) | Released \<Rightarrow> Some (Inr i)
      | Cancelled \<Rightarrow> Some (Inl ContextCanceled))"

text \<open>The steps that release a ticket.\<close>

fun is_Release :: "sem_event \<Rightarrow> bool" where
  "is_Release (Release i) = True"
| "is_Release ev = False"

text \<open>
  While no ticket has been released, the tickets outstanding are as many as the calls
  made, up to the capacity.
\<close>

definition unreleased :: "semaphore \<Rightarrow> bool" where
  "unreleased g = (released g = 0 \<and> outstanding g = min (nonidle g) (capacity g))"

text \<open>
  The operations blocked in \<^verbatim>\<open>Acquire\<close>, and those that got the cancellation error; the
  steps that admit and those that cancel; the admissions in a schedule.
\<close>

definition waiting :: "semaphore \<Rightarrow> nat" where
  "waiting g = length (filter (\<lambda>p. p = Waiting) (phases g))"

definition cancelled :: "semaphore \<Rightarrow> nat" where
  "cancelled g = length (filter (\<lambda>p. p = Cancelled) (phases g))"

fun is_Admit :: "sem_event \<Rightarrow> bool" where
  "is_Admit (Admit i) = True"
| "is_Admit ev = False"

fun is_Cancel :: "sem_event \<Rightarrow> bool" where
  "is_Cancel (Cancel i) = True"
| "is_Cancel ev = False"

definition admissions :: "sem_event list \<Rightarrow> nat" where
  "admissions evs = length (filter is_Admit evs)"

subsection \<open>Notions used to state the properties\<close>

text \<open>
  The ancestors of a path are its strict, non-empty prefixes, root first. \<open>below\<close> lists
  the nodes that the walk still has above the target when it stands under \<open>parent\<close>.
\<close>

definition ancestors :: "DatasetPath \<Rightarrow> DatasetPath list" where
  "ancestors lp = butlast (tl (prefixes lp))"

fun below :: "DatasetPath \<Rightarrow> string list \<Rightarrow> DatasetPath list" where
  "below parent [] = []"
| "below parent [c] = []"
| "below parent (c # c' # cs) = (parent @ [c]) # below (parent @ [c]) (c' # cs)"

text \<open>Readings of a log: the paths probed, and the probes, creations and receives by outcome.\<close>

fun probed :: "call list \<Rightarrow> DatasetPath list" where
  "probed [] = []"
| "probed (Call_ZFSGet p names r # cs) = p # probed cs"
| "probed (c # cs) = probed cs"

fun probe_failed :: "call list \<Rightarrow> DatasetPath list" where
  "probe_failed [] = []"
| "probe_failed (Call_ZFSGet p names (Some e) # cs) = p # probe_failed cs"
| "probe_failed (c # cs) = probe_failed cs"

fun create_attempted :: "call list \<Rightarrow> DatasetPath list" where
  "create_attempted [] = []"
| "create_attempted (Call_ZFSCreatePlaceholderFilesystem p r # cs) = p # create_attempted cs"
| "create_attempted (c # cs) = create_attempted cs"

fun created :: "call list \<Rightarrow> DatasetPath list" where
  "created [] = []"
| "created (Call_ZFSCreatePlaceholderFilesystem p None # cs) = p # created cs"
| "created (c # cs) = created cs"

fun recv_args :: "call list \<Rightarrow> string list list" where
  "recv_args [] = []"
| "recv_args (Call_ZFSRecv fs stream args r # cs) = args # recv_args cs"
| "recv_args (c # cs) = recv_args cs"

fun inversions :: "call list \<Rightarrow> nat" where
  "inversions [] = 0"
| "inversions (Call_Invert r # cs) = Suc (inversions cs)"
| "inversions (c # cs) = inversions cs"

text \<open>
  The shape of the log that the repair walk over the ancestors \<open>as\<close> leaves, with the
  value of \<^verbatim>\<open>visitErr\<close> at its end: a successful probe; a failed probe and a successful
  creation; or a failed probe and a failed creation, which ends the walk.
\<close>

inductive repair_trace :: "string \<Rightarrow> DatasetPath list \<Rightarrow> zfs_error option \<Rightarrow> call list \<Rightarrow> bool"
  for n :: string where
  repair_done: "repair_trace n [] None []"
| repair_exists:
    "repair_trace n as ve t \<Longrightarrow> repair_trace n (a # as) ve (Call_ZFSGet a [n] None # t)"
| repair_created:
    "repair_trace n as ve t \<Longrightarrow>
     repair_trace n (a # as) ve
       (Call_ZFSGet a [n] (Some e) # Call_ZFSCreatePlaceholderFilesystem a None # t)"
| repair_halted:
    "repair_trace n (a # as) (Some ce)
       [Call_ZFSGet a [n] (Some e), Call_ZFSCreatePlaceholderFilesystem a (Some ce)]"

text \<open>
  The repair as the amended claim C7 words it, over the ancestors root first: probe the
  ancestor; where the probe fails, create a placeholder there; go on to the next
  ancestor unless the creation failed. It returns the error that ended it, the world
  of the backend and the calls made.
\<close>

fun repair_ancestors ::
  "'w env \<Rightarrow> DatasetPath list \<Rightarrow> 'w \<Rightarrow> zfs_error option \<times> 'w \<times> call list" where
  "repair_ancestors z [] w = (None, w, [])"
| "repair_ancestors z (a # as) w =
     (case ZFSGet z w a [ZREPL_PLACEHOLDER_PROPERTY_NAME z] of
        (Inr props, w1) \<Rightarrow>
          (case repair_ancestors z as w1 of
             (ve, w', t) \<Rightarrow> (ve, w', Call_ZFSGet a [ZREPL_PLACEHOLDER_PROPERTY_NAME z] None # t))
      | (Inl e, w1) \<Rightarrow>
          (case ZFSCreatePlaceholderFilesystem z w1 a of
             (None, w2) \<Rightarrow>
               (case repair_ancestors z as w2 of
                  (ve, w', t) \<Rightarrow>
                    (ve, w',
                     Call_ZFSGet a [ZREPL_PLACEHOLDER_PROPERTY_NAME z] (Some e)
                       # Call_ZFSCreatePlaceholderFilesystem a None # t))
           | (Some ce, w2) \<Rightarrow>
               (Some ce, w2,
                [Call_ZFSGet a [ZREPL_PLACEHOLDER_PROPERTY_NAME z] (Some e),
                 Call_ZFSCreatePlaceholderFilesystem a (Some ce)])))"

text \<open>
  What the backend answers when it is asked to destroy the versions at \<open>lp\<close>, one after
  the other in the order given, each in the world that the one before left.
\<close>

fun backend_destroys ::
  "'w env \<Rightarrow> DatasetPath \<Rightarrow> zfs_FilesystemVersion list \<Rightarrow> 'w \<Rightarrow> zfs_error option list \<times> 'w" where
  "backend_destroys z lp [] w = ([], w)"
| "backend_destroys z lp (v # vs) w =
     (case ZFSDestroyFilesystemVersion z w lp v of
        (r, w1) \<Rightarrow> (case backend_destroys z lp vs w1 of (rs, w') \<Rightarrow> (r # rs, w')))"

text \<open>A requested version that passes the first loop: a snapshot that the conversion accepts.\<close>

definition convertible :: "'w env \<Rightarrow> pdu_FilesystemVersion \<Rightarrow> bool" where
  "convertible z v =
     (fsv_Type v = FilesystemVersion_Snapshot \<and> (\<exists>fv. ZFSFilesystemVersion z v = Inr fv))"

subsection \<open>An example backend\<close>

text \<open>
  A small backend on which the theorems are run. Its world lists the filesystems that
  exist, each with the value of its placeholder property. Reading the property of a
  filesystem that is not there fails with \<open>DatasetDoesNotExist\<close>; a created placeholder
  carries the value \<open>on\<close>, and creating one where a filesystem exists fails; destroying
  the snapshot named \<open>busy\<close> fails; a version whose creation time is malformed is not
  converted.
\<close>

fun split_path :: "string \<Rightarrow> string list" where
  "split_path [] = [[]]"
| "split_path (c # cs) =
     (if c = CHR ''/'' then [] # split_path cs
      else (case split_path cs of [] \<Rightarrow> [[c]] | x # xs \<Rightarrow> (c # x) # xs))"

fun join_path :: "string list \<Rightarrow> string" where
  "join_path [] = []"
| "join_path [c] = c"
| "join_path (c # cs) = c @ ''/'' @ join_path cs"

type_synonym example_world = "(DatasetPath \<times> string) list"

definition example_env :: "example_world env" where
  "example_env =
     \<lparr>NewDatasetPath = (\<lambda>fs. if fs = [] then Inl (ZFSError ''empty path'') else Inr (split_path fs)),
      ToString = join_path,
      ZREPL_PLACEHOLDER_PROPERTY_NAME = ''zrepl:placeholder'',
      props_Get = (\<lambda>props k. case map_of props k of None \<Rightarrow> [] | Some v \<Rightarrow> v),
      IsPlaceholder =
        (\<lambda>p v. if v = ''on'' then (True, None) else (False, Some (ZFSError ''not a placeholder''))),
      FilesystemVersionFromZFS =
        (\<lambda>v. \<lparr>fsv_Type = (case zv_Type v of Snapshot \<Rightarrow> FilesystemVersion_Snapshot
                                             | Bookmark \<Rightarrow> FilesystemVersion_Bookmark),
               fsv_Name = zv_Name v, fsv_Creation = []\<rparr>),
      ZFSFilesystemVersion =
        (\<lambda>v. if fsv_Creation v = ''not a time'' then Inl ''cannot parse the creation time''
              else Inr \<lparr>zv_Type = (case fsv_Type v of FilesystemVersion_Snapshot \<Rightarrow> Snapshot
                                                       | FilesystemVersion_Bookmark \<Rightarrow> Bookmark),
                        zv_Name = fsv_Name v\<rparr>),
      ZFSListMapping = (\<lambda>w f. (Inr (map fst w), w)),
      ZFSListFilesystemVersions = (\<lambda>w p f. (Inr [], w)),
      ZFSSendDry = (\<lambda>w fs from to. (Inr 4096, w)),
      ZFSSend = (\<lambda>w fs from to. (Inr 7, w)),
      ZFSGet =
        (\<lambda>w p names. case map_of w p of
                        None \<Rightarrow> (Inl (DatasetDoesNotExist (join_path p)), w)
                      | Some v \<Rightarrow> (Inr (map (\<lambda>n. (n, v)) names), w)),
      ZFSCreatePlaceholderFilesystem =
        (\<lambda>w p. case map_of w p of
                  None \<Rightarrow> (None, w @ [(p, ''on'')])
                | Some v \<Rightarrow> (Some (ZFSError ''dataset already exists''), w)),
      ZFSRecv = (\<lambda>w fs stream args. (None, w)),
      ZFSDestroyFilesystemVersion =
        (\<lambda>w p v. (if zv_Name v = ''busy'' then Some (ZFSError ''dataset is busy'') else None, w))\<rparr>"

text \<open>The same backend when reading a property fails for a reason other than absence.\<close>

definition unreadable_env :: "example_world env" where
  "unreadable_env =
     example_env\<lparr>ZFSGet := (\<lambda>w p names. (Inl (ZFSError ''permission denied''), w))\<rparr>"

text \<open>The same backend when every destruction fails with an error whose text is empty.\<close>

definition silent_env :: "example_world env" where
  "silent_env =
     example_env\<lparr>ZFSDestroyFilesystemVersion := (\<lambda>w p v. (Some (ZFSError []), w))\<rparr>"

text \<open>
  A map that puts every path under \<open>pool\<close>; its inverse, which takes the first component
  off; the receiver that NewReceiver makes of the map; and a map that cannot be
  inverted.
\<close>

definition strip_fsmap :: FSMap where
  "strip_fsmap =
     FSMap (\<lambda>p. Inr True) (\<lambda>p. Inr (Some (tl p))) (Inl ''not inverted twice'') (\<lambda>p. Inr True)"

definition prefix_fsmap :: FSMap where
  "prefix_fsmap =
     FSMap (\<lambda>p. Inr True) (\<lambda>p. Inr (Some (''pool'' # p))) (Inr strip_fsmap) (\<lambda>p. Inr True)"

definition example_receiver :: Receiver where
  "example_receiver =
     \<lparr>Receiver_fsmapInv = strip_fsmap, Receiver_fsmap = prefix_fsmap,
      Receiver_fsvf = (\<lambda>v. Inr True)\<rparr>"

definition noninvertible_fsmap :: FSMap where
  "noninvertible_fsmap =
     FSMap (\<lambda>p. Inr True) (\<lambda>p. Inr (Some (''pool'' # p))) (Inl ''mapping is not invertible'')
       (\<lambda>p. Inr True)"

text \<open>A sender whose filter denies every path.\<close>

definition deny_all :: Sender where
  "deny_all = NewSender (\<lambda>p. Inr False) (\<lambda>v. Inr True)"

definition snap :: "string \<Rightarrow> pdu_FilesystemVersion" where
  "snap name = \<lparr>fsv_Type = FilesystemVersion_Snapshot, fsv_Name = name, fsv_Creation = []\<rparr>"

text \<open>A codec that encodes every message as the empty buffer and decodes to empty messages.\<close>

definition example_proto :: proto where
  "example_proto =
     \<lparr>Marshal = (\<lambda>m. Inr []),
      Unmarshal_ListFilesystemReq = (\<lambda>b. Inr ()),
      Unmarshal_ListFilesystemRes = (\<lambda>b. Inr \<lparr>ListFilesystemRes_Filesystems = []\<rparr>),
      Unmarshal_ListFilesystemVersionsReq =
        (\<lambda>b. Inr \<lparr>ListFilesystemVersionsReq_Filesystem = []\<rparr>),
      Unmarshal_ListFilesystemVersionsRes =
        (\<lambda>b. Inr \<lparr>ListFilesystemVersionsRes_Versions = []\<rparr>),
      Unmarshal_SendReq =
        (\<lambda>b. Inr \<lparr>SendReq_Filesystem = [], SendReq_From = [], SendReq_To = []\<rparr>),
      Unmarshal_SendRes = (\<lambda>b. Inr \<lparr>SendRes_ExpectedSize = 0\<rparr>),
      Unmarshal_ReceiveReq = (\<lambda>b. Inr \<lparr>ReceiveReq_Filesystem = []\<rparr>),
      Unmarshal_ReceiveRes = (\<lambda>b. Inr ()),
      Unmarshal_DestroySnapshotsReq =
        (\<lambda>b. Inr \<lparr>DestroySnapshotsReq_Filesystem = [], DestroySnapshotsReq_Snapshots = []\<rparr>),
      Unmarshal_DestroySnapshotsRes = (\<lambda>b. Inr \<lparr>DestroySnapshotsRes_Results = []\<rparr>),
      Unmarshal_SnapshotReplicationStatusReq =
        (\<lambda>b. Inr \<lparr>StatusReq_Filesystem = [], StatusReq_Snapshot = [],
                   StatusReq_Op = SnapshotReplicationStatusReq_Get\<rparr>)\<rparr>"

text \<open>
  A peer that answers every request with the stream 9 attached, and one that never
  attaches a stream. The world counts the requests.
\<close>

definition stream_always :: "nat Remote" where
  "stream_always = \<lparr>RequestReply = (\<lambda>w endpoint b stream. (Inr ([], Some 9), Suc w))\<rparr>"

definition stream_never :: "nat Remote" where
  "stream_never = \<lparr>RequestReply = (\<lambda>w endpoint b stream. (Inr ([], None), Suc w))\<rparr>"

text \<open>
  An endpoint with the methods of a sender only, and one with those of a receiver only.
  Their state counts the calls that reach them.
\<close>

definition sender_only :: "nat Endpoint" where
  "sender_only =
     \<lparr>ep_ListFilesystems = (\<lambda>s. (Inr [], Suc s)),
      ep_ListFilesystemVersions = (\<lambda>fs s. (Inr [], Suc s)),
      ep_DestroySnapshots = (\<lambda>req s. (Inr \<lparr>DestroySnapshotsRes_Results = []\<rparr>, Suc s)),
      ep_as_Sender =
        Some \<lparr>ep_Send = (\<lambda>req s. (Inr (\<lparr>SendRes_ExpectedSize = 0\<rparr>, Some 7), Suc s)),
              ep_SnapshotReplicationStatus =
                (\<lambda>req s. (Inr \<lparr>StatusRes_Replicated = False\<rparr>, Suc s))\<rparr>,
      ep_as_Receiver = None\<rparr>"

definition receiver_only :: "nat Endpoint" where
  "receiver_only =
     \<lparr>ep_ListFilesystems = (\<lambda>s. (Inr [], Suc s)),
      ep_ListFilesystemVersions = (\<lambda>fs s. (Inr [], Suc s)),
      ep_DestroySnapshots = (\<lambda>req s. (Inr \<lparr>DestroySnapshotsRes_Results = []\<rparr>, Suc s)),
      ep_as_Sender = None,
      ep_as_Receiver = Some \<lparr>ep_Receive = (\<lambda>req stream s. (None, Suc s))\<rparr>\<rparr>"

text \<open>The names of the calls that the handler's switch has a case for.\<close>

definition known_calls :: "string list" where
  "known_calls = [RPCListFilesystems, RPCListFilesystemVersions, RPCSend, RPCReceive,
     RPCSDestroySnapshots, RPCSnapshotReplicationStatus]"

text \<open>The logged call and the per-item result of one pass of the destroying loop.\<close>

definition destroy_call :: "DatasetPath \<Rightarrow> zfs_FilesystemVersion \<times> zfs_error option \<Rightarrow> call" where
  "destroy_call lp = (\<lambda>(v, r). Call_ZFSDestroyFilesystemVersion lp v r)"

definition destroy_result ::
  "'w env \<Rightarrow> zfs_FilesystemVersion \<times> zfs_error option \<Rightarrow> DestroySnapshotRes" where
  "destroy_result z = (\<lambda>(v, r).
     \<lparr>DestroySnapshotRes_Snapshot = FilesystemVersionFromZFS z v,
      DestroySnapshotRes_Error = (case r of None \<Rightarrow> [] | Some e \<Rightarrow> zfs_Error e)\<rparr>)"

section \<open>Properties\<close>

subsection \<open>Lemmas on the log\<close>

lemma calls_logged [simp]: "calls (logged s w c) = calls s @ [c]"
  by (simp add: logged_def)

lemma world_logged [simp]: "world (logged s w c) = w"
  by (simp add: logged_def)

lemma calls_Close [simp]: "calls (Close stream s) = calls s @ [Call_Close stream]"
  by (simp add: Close_def)

lemma world_Close [simp]: "world (Close stream s) = world s"
  by (simp add: Close_def)

subsection \<open>The ancestors and the repair walk\<close>

lemma below_prefixes: "below parent cs = map ((@) parent) (butlast (tl (prefixes cs)))"
proof (induction parent cs rule: below.induct)
  case (3 parent c c' cs)
  then show ?case by (simp add: map_butlast[symmetric] comp_def)
qed simp_all

lemma ancestors_below: "ancestors lp = below [] lp"
proof -
  have "map ((@) []) xs = xs" for xs :: "DatasetPath list"
    by (induction xs) simp_all
  then show ?thesis by (simp add: ancestors_def below_prefixes)
qed

lemma visitor_target: "Receive_visitor z lp lp (ve, s) = (False, ve, s)"
  by (simp add: Receive_visitor_def)

lemma visitor_exists:
  "v \<noteq> lp \<Longrightarrow> ZFSGet z (world s) v [ZREPL_PLACEHOLDER_PROPERTY_NAME z] = (Inr props, w1) \<Longrightarrow>
   Receive_visitor z lp v (ve, s) =
     (True, ve, logged s w1 (Call_ZFSGet v [ZREPL_PLACEHOLDER_PROPERTY_NAME z] None))"
  by (simp add: Receive_visitor_def call_ZFSGet_def err_of_def)

lemma visitor_missing:
  "v \<noteq> lp \<Longrightarrow> ZFSGet z (world s) v [ZREPL_PLACEHOLDER_PROPERTY_NAME z] = (Inl e, w1) \<Longrightarrow>
   ZFSCreatePlaceholderFilesystem z w1 v = (cr, w2) \<Longrightarrow>
   Receive_visitor z lp v (ve, s) =
     (cr = None, (case cr of None \<Rightarrow> ve | Some ce \<Rightarrow> Some ce),
      logged (logged s w1 (Call_ZFSGet v [ZREPL_PLACEHOLDER_PROPERTY_NAME z] (Some e))) w2
        (Call_ZFSCreatePlaceholderFilesystem v cr))"
  by (cases cr)
     (simp_all add: Receive_visitor_def call_ZFSGet_def err_of_def
        call_ZFSCreatePlaceholderFilesystem_def)

text \<open>
  The walk, started under any parent with \<^verbatim>\<open>visitErr\<close> unset, leaves a log of the
  repair shape over the nodes that were still above the target.
\<close>

lemma walk_trace:
  "WalkTopDown (Receive_visitor z (parent @ cs)) parent cs (None, s) = (ve, s') \<Longrightarrow>
   \<exists>t. calls s' = calls s @ t \<and>
       repair_trace (ZREPL_PLACEHOLDER_PROPERTY_NAME z) (below parent cs) ve t"
proof (induction parent cs arbitrary: s rule: below.induct)
  case (1 parent)
  then show ?case by (auto intro: repair_trace.intros)
next
  case (2 parent c)
  then show ?case by (auto simp: visitor_target intro: repair_trace.intros)
next
  case (3 parent c c' cs)
  let ?n = "ZREPL_PLACEHOLDER_PROPERTY_NAME z"
  let ?v = "parent @ [c]"
  let ?lp = "parent @ c # c' # cs"
  let ?V = "Receive_visitor z ?lp"
  have lp: "?lp = ?v @ c' # cs" by simp
  have ne: "?v \<noteq> ?lp" by simp
  have step: "WalkTopDown ?V parent (c # c' # cs) (None, s) =
      (case ?V ?v (None, s) of (b, st) \<Rightarrow> if b then WalkTopDown ?V ?v (c' # cs) st else st)"
    by (rule WalkTopDown.simps(2))
  obtain g w1 where g: "ZFSGet z (world s) ?v [?n] = (g, w1)"
    by (cases "ZFSGet z (world s) ?v [?n]")
  show ?case
  proof (cases g)
    case (Inr props)
    let ?s1 = "logged s w1 (Call_ZFSGet ?v [?n] None)"
    have "?V ?v (None, s) = (True, None, ?s1)"
      using visitor_exists[OF ne] g Inr by simp
    with 3(2) step have "WalkTopDown ?V ?v (c' # cs) (None, ?s1) = (ve, s')"
      by simp
    then have "WalkTopDown (Receive_visitor z (?v @ c' # cs)) ?v (c' # cs) (None, ?s1) = (ve, s')"
      by (simp only: lp)
    from 3(1)[OF this] obtain t
      where "calls s' = calls ?s1 @ t" "repair_trace ?n (below ?v (c' # cs)) ve t"
      by blast
    then show ?thesis by (auto intro: repair_trace.intros)
  next
    case (Inl e)
    let ?s1 = "logged s w1 (Call_ZFSGet ?v [?n] (Some e))"
    obtain cr w2 where cr: "ZFSCreatePlaceholderFilesystem z w1 ?v = (cr, w2)"
      by (cases "ZFSCreatePlaceholderFilesystem z w1 ?v")
    let ?s2 = "logged ?s1 w2 (Call_ZFSCreatePlaceholderFilesystem ?v cr)"
    have vis: "?V ?v (None, s) =
        (cr = None, (case cr of None \<Rightarrow> None | Some ce \<Rightarrow> Some ce), ?s2)"
      using visitor_missing[OF ne _ cr] g Inl by simp
    show ?thesis
    proof (cases cr)
      case None
      with 3(2) step vis have "WalkTopDown ?V ?v (c' # cs) (None, ?s2) = (ve, s')"
        by simp
      then have "WalkTopDown (Receive_visitor z (?v @ c' # cs)) ?v (c' # cs) (None, ?s2) = (ve, s')"
        by (simp only: lp)
      from 3(1)[OF this] obtain t
        where "calls s' = calls ?s2 @ t" "repair_trace ?n (below ?v (c' # cs)) ve t"
        by blast
      with None show ?thesis by (auto intro: repair_trace.intros)
    next
      case (Some ce)
      with 3(2) step vis have "ve = Some ce" "s' = ?s2"
        by auto
      with Some show ?thesis by (auto intro: repair_trace.intros)
    qed
  qed
qed

lemma Receive_repair_trace:
  "Receive_repair z lp s = (ve, s') \<Longrightarrow>
   \<exists>t. calls s' = calls s @ t \<and>
       repair_trace (ZREPL_PLACEHOLDER_PROPERTY_NAME z) (ancestors lp) ve t"
  using walk_trace[of z "[]" lp s ve s'] by (simp add: Receive_repair_def ancestors_below)

lemma walk_repair:
  "WalkTopDown (Receive_visitor z (parent @ cs)) parent cs (None, s) =
     (case repair_ancestors z (below parent cs) (world s) of
        (ve, w', t) \<Rightarrow> (ve, \<lparr>world = w', calls = calls s @ t\<rparr>))"
proof (induction parent cs arbitrary: s rule: below.induct)
  case (1 parent)
  then show ?case by simp
next
  case (2 parent c)
  then show ?case by (simp add: visitor_target)
next
  case (3 parent c c' cs)
  let ?n = "ZREPL_PLACEHOLDER_PROPERTY_NAME z"
  let ?v = "parent @ [c]"
  let ?lp = "parent @ c # c' # cs"
  let ?V = "Receive_visitor z ?lp"
  have lp: "?lp = ?v @ c' # cs" by simp
  have ne: "?v \<noteq> ?lp" by simp
  have step: "WalkTopDown ?V parent (c # c' # cs) (None, s) =
      (case ?V ?v (None, s) of (b, st) \<Rightarrow> if b then WalkTopDown ?V ?v (c' # cs) st else st)"
    by (rule WalkTopDown.simps(2))
  have bel: "below parent (c # c' # cs) = ?v # below ?v (c' # cs)" by simp
  have IH: "WalkTopDown ?V ?v (c' # cs) (None, s1) =
     (case repair_ancestors z (below ?v (c' # cs)) (world s1) of
        (ve, w', t) \<Rightarrow> (ve, \<lparr>world = w', calls = calls s1 @ t\<rparr>))" for s1
    using 3[of s1] by (simp only: lp)
  obtain g w1 where g: "ZFSGet z (world s) ?v [?n] = (g, w1)"
    by (cases "ZFSGet z (world s) ?v [?n]")
  show ?case
  proof (cases g)
    case (Inr props)
    let ?s1 = "logged s w1 (Call_ZFSGet ?v [?n] None)"
    have vis: "?V ?v (None, s) = (True, None, ?s1)"
      using visitor_exists[OF ne] g Inr by simp
    show ?thesis
      unfolding step vis bel
      using g Inr by (simp add: IH split_beta del: below.simps WalkTopDown.simps)
  next
    case (Inl e)
    let ?s1 = "logged s w1 (Call_ZFSGet ?v [?n] (Some e))"
    obtain cr w2 where cr: "ZFSCreatePlaceholderFilesystem z w1 ?v = (cr, w2)"
      by (cases "ZFSCreatePlaceholderFilesystem z w1 ?v")
    let ?s2 = "logged ?s1 w2 (Call_ZFSCreatePlaceholderFilesystem ?v cr)"
    have vis: "?V ?v (None, s) =
        (cr = None, (case cr of None \<Rightarrow> None | Some ce \<Rightarrow> Some ce), ?s2)"
      using visitor_missing[OF ne _ cr] g Inl by simp
    show ?thesis
    proof (cases cr)
      case None
      show ?thesis
        unfolding step vis bel
        using g Inl cr None by (simp add: IH split_beta del: below.simps WalkTopDown.simps)
    next
      case (Some ce)
      show ?thesis
        unfolding step vis bel
        using g Inl cr Some by (simp add: logged_def del: below.simps WalkTopDown.simps)
    qed
  qed
qed

lemma Receive_repair_ancestors_eq:
  "Receive_repair z lp s =
     (case repair_ancestors z (ancestors lp) (world s) of
        (ve, w', t) \<Rightarrow> (ve, \<lparr>world = w', calls = calls s @ t\<rparr>))"
  using walk_repair[of z "[]" lp s] by (simp add: Receive_repair_def ancestors_below)

subsection \<open>Receive\<close>

lemma Receive_reached:
  assumes "NewDatasetPath z (ReceiveReq_Filesystem req) = Inr p"
      and "fsmap_Map (Receiver_fsmap e) p = Inr (Some lp)"
  shows "Receiver_Receive z e req stream s =
     (case Receive_repair z lp s of
        (Some ve, s1) \<Rightarrow> (Some (ZFSErr ve), Close stream s1)
      | (None, s1) \<Rightarrow> (fst (Receive_recv z lp stream s1), Close stream (snd (Receive_recv z lp stream s1))))"
  using assms
  by (simp add: Receiver_Receive_def Receive_body_def split: prod.splits option.splits)

lemma Receive_recv_run:
  assumes "ZFSGet z (world s) lp [ZREPL_PLACEHOLDER_PROPERTY_NAME z] = (got, w1)"
      and "ZFSRecv z w1 (ToString z lp) stream
             (if (\<exists>props. got = Inr props
                   \<and> fst (IsPlaceholder z lp (props_Get z props (ZREPL_PLACEHOLDER_PROPERTY_NAME z))))
              then [''-F''] else []) = (r, w2)"
  shows "Receive_recv z lp stream s =
     (map_option ZFSErr r,
      \<lparr>world = w2,
       calls = calls s @
         [Call_ZFSGet lp [ZREPL_PLACEHOLDER_PROPERTY_NAME z] (err_of got),
          Call_ZFSRecv (ToString z lp) stream
            (if (\<exists>props. got = Inr props
                  \<and> fst (IsPlaceholder z lp (props_Get z props (ZREPL_PLACEHOLDER_PROPERTY_NAME z))))
             then [''-F''] else []) r]\<rparr>)"
proof (cases got)
  case (Inl perr)
  with assms show ?thesis
    by (cases r) (simp_all add: Receive_recv_def call_ZFSGet_def call_ZFSRecv_def logged_def err_of_def)
next
  case (Inr props)
  with assms show ?thesis
    by (cases r) (simp_all add: Receive_recv_def call_ZFSGet_def call_ZFSRecv_def logged_def err_of_def)
qed

lemma recv_args_append: "recv_args (xs @ ys) = recv_args xs @ recv_args ys"
  by (induction xs rule: recv_args.induct) simp_all

lemma repair_trace_recv_args: "repair_trace n as ve t \<Longrightarrow> recv_args t = []"
  by (induction rule: repair_trace.induct) simp_all

lemma repair_trace_followed:
  "repair_trace n as ve t \<Longrightarrow> i < length t \<Longrightarrow> t ! i = Call_ZFSGet v names (Some perr) \<Longrightarrow>
   Suc i < length t \<and> (\<exists>cr. t ! Suc i = Call_ZFSCreatePlaceholderFilesystem v cr)"
proof (induction arbitrary: i rule: repair_trace.induct)
  case repair_done
  then show ?case by simp
next
  case (repair_exists as ve t a)
  then show ?case by (cases i) auto
next
  case (repair_created as ve t a e)
  show ?case
  proof (cases i)
    case 0
    with repair_created.prems show ?thesis by simp
  next
    case (Suc j)
    show ?thesis
    proof (cases j)
      case 0
      with Suc repair_created.prems show ?thesis by simp
    next
      case (Suc k)
      with \<open>i = Suc j\<close> repair_created.prems repair_created.IH[of k] show ?thesis by simp
    qed
  qed
next
  case (repair_halted a as ce e)
  then show ?case by (cases i) auto
qed

lemma repair_trace_halted:
  "repair_trace n as ve t \<Longrightarrow> ve = Some ce \<Longrightarrow>
   \<exists>t0 a. t = t0 @ [Call_ZFSCreatePlaceholderFilesystem a (Some ce)]
         \<and> (\<forall>v ce'. Call_ZFSCreatePlaceholderFilesystem v (Some ce') \<notin> set t0)"
proof (induction rule: repair_trace.induct)
  case repair_done
  then show ?case by simp
next
  case (repair_exists as ve t a)
  then obtain t0 a' where "t = t0 @ [Call_ZFSCreatePlaceholderFilesystem a' (Some ce)]"
    "\<forall>v ce'. Call_ZFSCreatePlaceholderFilesystem v (Some ce') \<notin> set t0" by blast
  then show ?case
    by (intro exI[of _ "Call_ZFSGet a [n] None # t0"] exI[of _ a']) simp
next
  case (repair_created as ve t a e)
  then obtain t0 a' where "t = t0 @ [Call_ZFSCreatePlaceholderFilesystem a' (Some ce)]"
    "\<forall>v ce'. Call_ZFSCreatePlaceholderFilesystem v (Some ce') \<notin> set t0" by blast
  then show ?case
    by (intro exI[of _ "Call_ZFSGet a [n] (Some e) # Call_ZFSCreatePlaceholderFilesystem a None # t0"]
          exI[of _ a']) simp
next
  case (repair_halted a as ce' e)
  then show ?case
    by (intro exI[of _ "[Call_ZFSGet a [n] (Some e)]"] exI[of _ a]) simp
qed

lemma repair_trace_completed:
  "repair_trace n as ve t \<Longrightarrow> ve = None \<Longrightarrow>
   (\<forall>v ce. Call_ZFSCreatePlaceholderFilesystem v (Some ce) \<notin> set t)
   \<and> probed t = as \<and> created t = probe_failed t"
  by (induction rule: repair_trace.induct) simp_all

lemma repair_trace_lists:
  "repair_trace n as ve t \<Longrightarrow>
   prefix (probed t) as \<and> create_attempted t = probe_failed t
   \<and> prefix (created t) (probe_failed t)
   \<and> length t = length (probed t) + length (create_attempted t)"
  by (induction rule: repair_trace.induct) simp_all

lemma below_take:
  "a \<in> set (below parent cs) \<Longrightarrow> \<exists>k. 0 < k \<and> k < length cs \<and> a = parent @ take k cs"
proof (induction parent cs rule: below.induct)
  case (3 parent c c' cs)
  show ?case
  proof (cases "a = parent @ [c]")
    case True
    then show ?thesis by (intro exI[of _ 1]) simp
  next
    case False
    with 3 obtain k where "0 < k" "k < length (c' # cs)" "a = (parent @ [c]) @ take k (c' # cs)"
      by auto
    then show ?thesis by (intro exI[of _ "Suc k"]) simp
  qed
qed simp_all

lemma ancestors_strict:
  "a \<in> set (ancestors lp) \<Longrightarrow> strict_prefix a lp \<and> a \<noteq> []"
proof -
  assume "a \<in> set (ancestors lp)"
  then obtain k where k: "0 < k" "k < length lp" "a = take k lp"
    using below_take[of a "[]" lp] by (auto simp: ancestors_below)
  have "prefix (take k lp) lp" by (rule take_is_prefix)
  moreover have "take k lp \<noteq> lp" using k(2) by (metis length_take min.absorb2 less_imp_le nat_neq_iff)
  moreover have "take k lp \<noteq> []" using k(1,2) by auto
  ultimately show ?thesis using k(3) by (simp add: strict_prefix_def)
qed

lemma probed_append: "probed (xs @ ys) = probed xs @ probed ys"
  by (induction xs rule: probed.induct) simp_all

lemma followed_append:
  assumes tw: "\<And>i v names perr. i < length tw \<Longrightarrow> tw ! i = Call_ZFSGet v names (Some perr) \<Longrightarrow>
             Suc i < length tw \<and> (\<exists>cr. tw ! Suc i = Call_ZFSCreatePlaceholderFilesystem v cr)"
      and rest: "\<And>v names perr. Call_ZFSGet v names (Some perr) \<in> set rest \<Longrightarrow> v = lp"
      and i: "i < length (tw @ rest)" "(tw @ rest) ! i = Call_ZFSGet v names (Some perr)" "v \<noteq> lp"
  shows "Suc i < length (tw @ rest)
       \<and> (\<exists>cr. (tw @ rest) ! Suc i = Call_ZFSCreatePlaceholderFilesystem v cr)"
proof (cases "i < length tw")
  case True
  with i(2) have "tw ! i = Call_ZFSGet v names (Some perr)" by (simp add: nth_append)
  from tw[OF True this] show ?thesis by (auto simp: nth_append)
next
  case False
  with i(1,2) have "rest ! (i - length tw) = Call_ZFSGet v names (Some perr)"
    "i - length tw < length rest" by (auto simp: nth_append)
  then have "Call_ZFSGet v names (Some perr) \<in> set rest" by (metis nth_mem)
  from rest[OF this] i(3) show ?thesis by simp
qed

subsection \<open>The destroying loop\<close>

lemma inversions_append: "inversions (xs @ ys) = inversions xs + inversions ys"
  by (induction xs rule: inversions.induct) simp_all

lemma repair_trace_inversions: "repair_trace n as ve t \<Longrightarrow> inversions t = 0"
  by (induction rule: repair_trace.induct) simp_all

lemma destroy_loop:
  "\<exists>outs. length outs = length fsvs
     \<and> calls (snd (doDestroySnapshots_destroy z lp fsvs s))
         = calls s @ map (destroy_call lp) (zip fsvs outs)
     \<and> fst (doDestroySnapshots_destroy z lp fsvs s) = map (destroy_result z) (zip fsvs outs)"
proof (induction fsvs arbitrary: s)
  case Nil
  then show ?case by simp
next
  case (Cons fsv fsvs)
  obtain r w where d: "ZFSDestroyFilesystemVersion z (world s) lp fsv = (r, w)"
    by (cases "ZFSDestroyFilesystemVersion z (world s) lp fsv")
  let ?s1 = "logged s w (Call_ZFSDestroyFilesystemVersion lp fsv r)"
  from Cons[of ?s1] obtain outs where outs: "length outs = length fsvs"
    "calls (snd (doDestroySnapshots_destroy z lp fsvs ?s1))
       = calls ?s1 @ map (destroy_call lp) (zip fsvs outs)"
    "fst (doDestroySnapshots_destroy z lp fsvs ?s1) = map (destroy_result z) (zip fsvs outs)"
    by blast
  have step: "doDestroySnapshots_destroy z lp (fsv # fsvs) s =
      (destroy_result z (fsv, r) # fst (doDestroySnapshots_destroy z lp fsvs ?s1),
       snd (doDestroySnapshots_destroy z lp fsvs ?s1))"
    using d by (simp add: call_ZFSDestroyFilesystemVersion_def destroy_result_def split_beta)
  show ?case
    using outs
    by (intro exI[of _ "r # outs"])
       (simp add: step destroy_call_def del: doDestroySnapshots_destroy.simps)
qed

lemma inversions_destroy_calls: "inversions (map (destroy_call lp) xs) = 0"
  by (induction xs) (auto simp: destroy_call_def)

lemma doDestroySnapshots_inversions:
  "inversions (calls (snd (doDestroySnapshots z lp snaps s))) = inversions (calls s)"
proof (cases "doDestroySnapshots_convert z snaps")
  case (Inl err)
  then show ?thesis by (simp add: doDestroySnapshots_def)
next
  case (Inr fsvs)
  from destroy_loop[of fsvs z lp s] obtain outs where
    "calls (snd (doDestroySnapshots_destroy z lp fsvs s))
       = calls s @ map (destroy_call lp) (zip fsvs outs)" by blast
  with Inr show ?thesis
    by (simp add: doDestroySnapshots_def inversions_append inversions_destroy_calls split_beta)
qed

lemma Receive_inversions:
  "inversions (calls (snd (Receiver_Receive z e req stream s))) = inversions (calls s)"
proof (cases "NewDatasetPath z (ReceiveReq_Filesystem req)")
  case (Inl err)
  then show ?thesis by (simp add: Receiver_Receive_def Receive_body_def inversions_append)
next
  case (Inr p)
  show ?thesis
  proof (cases "fsmap_Map (Receiver_fsmap e) p")
    case (Inl err)
    with Inr show ?thesis by (simp add: Receiver_Receive_def Receive_body_def inversions_append)
  next
    case mapped: (Inr m)
    show ?thesis
    proof (cases m)
      case None
      with Inr mapped show ?thesis
        by (simp add: Receiver_Receive_def Receive_body_def inversions_append)
    next
      case (Some lp)
      let ?n = "ZREPL_PLACEHOLDER_PROPERTY_NAME z"
      obtain ve s1 where rep: "Receive_repair z lp s = (ve, s1)" by (cases "Receive_repair z lp s")
      from Receive_repair_trace[OF rep] obtain tw
        where tw: "calls s1 = calls s @ tw" "repair_trace ?n (ancestors lp) ve tw" by blast
      have tw0: "inversions tw = 0" using tw(2) by (rule repair_trace_inversions)
      note reached = Receive_reached[OF Inr, of e lp stream s] 
      show ?thesis
      proof (cases ve)
        case None
        obtain got w1 where got: "ZFSGet z (world s1) lp [?n] = (got, w1)"
          by (cases "ZFSGet z (world s1) lp [?n]")
        let ?args = "if (\<exists>props. got = Inr props \<and> fst (IsPlaceholder z lp (props_Get z props ?n)))
                     then [''-F''] else []"
        obtain r w2 where r: "ZFSRecv z w1 (ToString z lp) stream ?args = (r, w2)"
          by (cases "ZFSRecv z w1 (ToString z lp) stream ?args")
        show ?thesis
          using reached mapped Some rep None tw(1) tw0 Receive_recv_run[OF got r]
          by (simp add: inversions_append)
      next
        case (Some ce)
        with reached mapped \<open>m = Some lp\<close> rep tw(1) tw0 show ?thesis
          by (simp add: inversions_append)
      qed
    qed
  qed
qed

lemma convert_fails:
  "\<exists>v \<in> set snaps. fsv_Type v \<noteq> FilesystemVersion_Snapshot
       \<or> (\<exists>err. ZFSFilesystemVersion z v = Inl err) \<Longrightarrow>
   \<exists>err. doDestroySnapshots_convert z snaps = Inl err"
proof (induction snaps)
  case Nil
  then show ?case by simp
next
  case (Cons a snaps)
  let ?bad = "\<lambda>v. fsv_Type v \<noteq> FilesystemVersion_Snapshot \<or> (\<exists>err. ZFSFilesystemVersion z v = Inl err)"
  show ?case
  proof (cases "\<exists>v \<in> set snaps. ?bad v")
    case True
    from Cons.IH[OF this] show ?thesis by (auto split: sum.splits)
  next
    case False
    with Cons.prems have "?bad a" by auto
    then show ?thesis by auto
  qed
qed

lemma error_texts_count:
  "\<forall>e. Some e \<in> set outs \<longrightarrow> zfs_Error e \<noteq> [] \<Longrightarrow>
   length (filter (\<lambda>x. x \<noteq> []) (map (\<lambda>r. case r of None \<Rightarrow> [] | Some e \<Rightarrow> zfs_Error e) outs))
     = length (filter (\<lambda>r. r \<noteq> None) outs)"
  by (induction outs) (auto split: option.splits)

lemma results_errors:
  "length outs = length fsvs \<Longrightarrow>
   map DestroySnapshotRes_Error (map (destroy_result z) (zip fsvs outs))
     = map (\<lambda>r. case r of None \<Rightarrow> [] | Some e \<Rightarrow> zfs_Error e) outs"
  by (induction fsvs outs rule: list_induct2') (simp_all add: destroy_result_def)

lemma length_backend_destroys:
  "length (fst (backend_destroys z lp vs w)) = length vs"
  by (induction vs arbitrary: w) (simp_all add: split_beta)

lemma destroy_loop_eq:
  "doDestroySnapshots_destroy z lp fsvs s =
     (map (destroy_result z) (zip fsvs (fst (backend_destroys z lp fsvs (world s)))),
      \<lparr>world = snd (backend_destroys z lp fsvs (world s)),
       calls = calls s @ map (destroy_call lp) (zip fsvs (fst (backend_destroys z lp fsvs (world s))))\<rparr>)"
proof (induction fsvs arbitrary: s)
  case Nil
  then show ?case by simp
next
  case (Cons fsv fsvs)
  obtain r w where d: "ZFSDestroyFilesystemVersion z (world s) lp fsv = (r, w)"
    by (cases "ZFSDestroyFilesystemVersion z (world s) lp fsv")
  let ?s1 = "logged s w (Call_ZFSDestroyFilesystemVersion lp fsv r)"
  have step: "doDestroySnapshots_destroy z lp (fsv # fsvs) s =
      (destroy_result z (fsv, r) # fst (doDestroySnapshots_destroy z lp fsvs ?s1),
       snd (doDestroySnapshots_destroy z lp fsvs ?s1))"
    using d by (simp add: call_ZFSDestroyFilesystemVersion_def destroy_result_def split_beta)
  have spec: "backend_destroys z lp (fsv # fsvs) (world s) =
      (r # fst (backend_destroys z lp fsvs w), snd (backend_destroys z lp fsvs w))"
    using d by (simp add: split_beta)
  show ?case
    unfolding step spec Cons.IH[of ?s1]
    by (simp add: destroy_call_def)
qed

lemma convert_bad_kind:
  "\<forall>v \<in> set good. convertible z v \<Longrightarrow> fsv_Type bad \<noteq> FilesystemVersion_Snapshot \<Longrightarrow>
   doDestroySnapshots_convert z (good @ bad # rest) =
     Inl (FmtErrorf ''version %q is not a snapshot'' (fsv_Name bad))"
proof (induction good)
  case Nil
  then show ?case by simp
next
  case (Cons a good)
  then obtain fv where "fsv_Type a = FilesystemVersion_Snapshot" "ZFSFilesystemVersion z a = Inr fv"
    by (auto simp: convertible_def)
  with Cons show ?case by simp
qed

lemma convert_bad_conversion:
  "\<forall>v \<in> set good. convertible z v \<Longrightarrow> fsv_Type bad = FilesystemVersion_Snapshot \<Longrightarrow>
   ZFSFilesystemVersion z bad = Inl cerr \<Longrightarrow>
   doDestroySnapshots_convert z (good @ bad # rest) = Inl (PduErr cerr)"
proof (induction good)
  case Nil
  then show ?case by simp
next
  case (Cons a good)
  then obtain fv where "fsv_Type a = FilesystemVersion_Snapshot" "ZFSFilesystemVersion z a = Inr fv"
    by (auto simp: convertible_def)
  with Cons show ?case by simp
qed

lemma convert_all_good:
  "\<forall>v \<in> set snaps. convertible z v \<Longrightarrow>
   \<exists>fsvs. doDestroySnapshots_convert z snaps = Inr fsvs
        \<and> map (ZFSFilesystemVersion z) snaps = map Inr fsvs"
proof (induction snaps)
  case Nil
  then show ?case by simp
next
  case (Cons a snaps)
  then obtain fv where a: "fsv_Type a = FilesystemVersion_Snapshot" "ZFSFilesystemVersion z a = Inr fv"
    by (auto simp: convertible_def)
  from Cons obtain fsvs where "doDestroySnapshots_convert z snaps = Inr fsvs"
    "map (ZFSFilesystemVersion z) snaps = map Inr fsvs" by auto
  with a show ?case by (intro exI[of _ "fv # fsvs"]) simp
qed

lemmas example_run =
  Receiver_Receive_def Receive_body_def Receive_repair_def Receive_visitor_def Receive_recv_def
  call_ZFSGet_def call_ZFSCreatePlaceholderFilesystem_def call_ZFSRecv_def
  logged_def Close_def err_of_def example_env_def unreadable_env_def example_receiver_def
  prefix_fsmap_def

subsection \<open>The semaphore\<close>

lemma filter_update:
  "i < length xs \<Longrightarrow>
   length (filter P (xs[i := v])) + (if P (xs ! i) then 1 else 0)
     = length (filter P xs) + (if P v then 1 else 0)"
proof (induction xs arbitrary: i)
  case Nil
  then show ?case by simp
next
  case (Cons x xs)
  show ?case
  proof (cases i)
    case 0
    then show ?thesis by simp
  next
    case (Suc j)
    with Cons.prems have "j < length xs" by simp
    from Cons.IH[OF this] Suc show ?thesis by simp
  qed
qed

lemma length_set_phase [simp]: "length (phases (set_phase g i p)) = length (phases g)"
  by (simp add: set_phase_def)

lemma capacity_set_phase [simp]: "capacity (set_phase g i p) = capacity g"
  by (simp add: set_phase_def)

lemma outstanding_set_phase:
  "i < length (phases g) \<Longrightarrow>
   outstanding (set_phase g i p) + (if phases g ! i = Holding then 1 else 0)
     = outstanding g + (if p = Holding then 1 else 0)"
  using filter_update[of i "phases g" "\<lambda>p. p = Holding" p]
  by (simp add: outstanding_def set_phase_def)

lemma step_frame:
  "step g ev = Some g' \<Longrightarrow> capacity g' = capacity g \<and> length (phases g') = length (phases g)"
  by (cases ev) (auto split: if_splits)

lemma step_bounded:
  "step g ev = Some g' \<Longrightarrow> outstanding g \<le> capacity g \<Longrightarrow> outstanding g' \<le> capacity g'"
proof (cases ev)
  case (Acquire i)
  assume "step g ev = Some g'" "outstanding g \<le> capacity g"
  with Acquire outstanding_set_phase[of i g Holding] outstanding_set_phase[of i g Waiting]
  show ?thesis by (auto split: if_splits)
next
  case (Admit i)
  assume "step g ev = Some g'" "outstanding g \<le> capacity g"
  with Admit outstanding_set_phase[of i g Holding]
  show ?thesis by (auto split: if_splits)
next
  case (Cancel i)
  assume "step g ev = Some g'" "outstanding g \<le> capacity g"
  with Cancel outstanding_set_phase[of i g Cancelled]
  show ?thesis by (auto split: if_splits)
next
  case (Release i)
  assume "step g ev = Some g'" "outstanding g \<le> capacity g"
  with Release outstanding_set_phase[of i g Released]
  show ?thesis by (auto split: if_splits)
qed

lemma run_bounded:
  "run g evs = Some g' \<Longrightarrow> outstanding g \<le> capacity g \<Longrightarrow> outstanding g' \<le> capacity g'"
proof (induction evs arbitrary: g)
  case Nil
  then show ?case by simp
next
  case (Cons ev evs)
  then obtain g1 where g1: "step g ev = Some g1" "run g1 evs = Some g'"
    by (auto split: option.splits)
  from step_bounded[OF g1(1) Cons.prems(2)] Cons.IH[OF g1(2)] show ?case by simp
qed

lemma New_outstanding: "outstanding (New N M) = 0" "capacity (New N M) = N" "length (phases (New N M)) = M"
  by (simp_all add: outstanding_def New_def)

lemma run_frame:
  "run g evs = Some g' \<Longrightarrow> capacity g' = capacity g \<and> length (phases g') = length (phases g)"
proof (induction evs arbitrary: g)
  case Nil
  then show ?case by simp
next
  case (Cons ev evs)
  then obtain g1 where g1: "step g ev = Some g1" "run g1 evs = Some g'"
    by (auto split: option.splits)
  from step_frame[OF g1(1)] Cons.IH[OF g1(2)] show ?case by simp
qed

lemma phase_partition:
  "length (filter (\<lambda>p. p \<noteq> Idle) xs) =
     length (filter (\<lambda>p. p = Holding) xs) + length (filter (\<lambda>p. p = Waiting \<or> p = Cancelled) xs)
     + length (filter (\<lambda>p. p = Released) xs)"
proof (induction xs)
  case Nil
  then show ?case by simp
next
  case (Cons x xs)
  then show ?case by (cases x) simp_all
qed

lemma nonidle_partition: "nonidle g = outstanding g + refused g + released g"
  by (simp add: nonidle_def outstanding_def refused_def released_def phase_partition)

lemma admitted_partition: "admitted g = outstanding g + released g"
proof -
  have "length (filter (\<lambda>p. p = Holding \<or> p = Released) xs) =
        length (filter (\<lambda>p. p = Holding) xs) + length (filter (\<lambda>p. p = Released) xs)"
    for xs :: "phase list"
  proof (induction xs)
    case Nil
    then show ?case by simp
  next
    case (Cons x xs)
    then show ?case by (cases x) simp_all
  qed
  then show ?thesis by (simp add: admitted_def outstanding_def released_def)
qed

lemma filter_pos: "i < length xs \<Longrightarrow> P (xs ! i) \<Longrightarrow> 0 < length (filter P xs)"
  by (metis filter_empty_conv length_greater_0_conv nth_mem)

lemma nonidle_set_phase:
  "i < length (phases g) \<Longrightarrow>
   nonidle (set_phase g i p) + (if phases g ! i \<noteq> Idle then 1 else 0)
     = nonidle g + (if p \<noteq> Idle then 1 else 0)"
  using filter_update[of i "phases g" "\<lambda>p. p \<noteq> Idle" p]
  by (simp add: nonidle_def set_phase_def)

lemma released_set_phase:
  "i < length (phases g) \<Longrightarrow>
   released (set_phase g i p) + (if phases g ! i = Released then 1 else 0)
     = released g + (if p = Released then 1 else 0)"
  using filter_update[of i "phases g" "\<lambda>p. p = Released" p]
  by (simp add: released_def set_phase_def)

lemma step_unreleased:
  assumes "step g ev = Some g'" and "\<not> is_Release ev" and "unreleased g"
  shows "unreleased g'"
proof (cases ev)
  case (Acquire i)
  with assms(1) have i: "i < length (phases g)" "phases g ! i = Idle"
    by (auto split: if_splits)
  show ?thesis
  proof (cases "outstanding g < capacity g")
    case True
    with Acquire assms(1) i have g': "g' = set_phase g i Holding" by simp
    from outstanding_set_phase[OF i(1), of Holding] nonidle_set_phase[OF i(1), of Holding]
      released_set_phase[OF i(1), of Holding] i(2) True assms(3)
    show ?thesis by (auto simp: g' unreleased_def)
  next
    case False
    with Acquire assms(1) i have g': "g' = set_phase g i Waiting" by simp
    from outstanding_set_phase[OF i(1), of Waiting] nonidle_set_phase[OF i(1), of Waiting]
      released_set_phase[OF i(1), of Waiting] i(2) False assms(3)
    show ?thesis by (auto simp: g' unreleased_def)
  qed
next
  case (Admit i)
  with assms(1) have i: "i < length (phases g)" "phases g ! i = Waiting"
    "outstanding g < capacity g"
    by (auto split: if_splits)
  from i(1,2) have "0 < refused g"
    unfolding refused_def by (intro filter_pos[of i]) simp_all
  with nonidle_partition[of g] assms(3) i(3) have False
    by (auto simp: unreleased_def)
  then show ?thesis ..
next
  case (Cancel i)
  with assms(1) have i: "i < length (phases g)" "phases g ! i = Waiting"
    and g': "g' = set_phase g i Cancelled"
    by (auto split: if_splits)
  from outstanding_set_phase[OF i(1), of Cancelled] nonidle_set_phase[OF i(1), of Cancelled]
    released_set_phase[OF i(1), of Cancelled] i(2) assms(3)
  show ?thesis by (auto simp: g' unreleased_def)
next
  case (Release i)
  with assms(2) show ?thesis by simp
qed

lemma run_unreleased:
  "run g evs = Some g' \<Longrightarrow> \<forall>ev \<in> set evs. \<not> is_Release ev \<Longrightarrow> unreleased g \<Longrightarrow> unreleased g'"
proof (induction evs arbitrary: g)
  case Nil
  then show ?case by simp
next
  case (Cons ev evs)
  then obtain g1 where g1: "step g ev = Some g1" "run g1 evs = Some g'"
    by (auto split: option.splits)
  from Cons.prems(2) have "\<not> is_Release ev" "\<forall>ev \<in> set evs. \<not> is_Release ev" by simp_all
  from step_unreleased[OF g1(1) this(1) Cons.prems(3)] Cons.IH[OF g1(2) this(2)] show ?case
    by simp
qed

lemma New_unreleased: "unreleased (New N M)"
  by (simp add: unreleased_def released_def outstanding_def nonidle_def New_def)

lemma step_keeps_phase:
  "step g ev = Some g' \<Longrightarrow> j < length (phases g) \<Longrightarrow>
   (phases g ! j \<noteq> Idle \<longrightarrow> phases g' ! j \<noteq> Idle)
   \<and> (phases g ! j = Cancelled \<longrightarrow> phases g' ! j = Cancelled)"
  by (cases ev) (auto simp: set_phase_def nth_list_update split: if_splits)

lemma run_keeps_phase:
  "run g evs = Some g' \<Longrightarrow> j < length (phases g) \<Longrightarrow>
   (phases g ! j \<noteq> Idle \<longrightarrow> phases g' ! j \<noteq> Idle)
   \<and> (phases g ! j = Cancelled \<longrightarrow> phases g' ! j = Cancelled)"
proof (induction evs arbitrary: g)
  case Nil
  then show ?case by simp
next
  case (Cons ev evs)
  then obtain g1 where g1: "step g ev = Some g1" "run g1 evs = Some g'"
    by (auto split: option.splits)
  from step_frame[OF g1(1)] Cons.prems(2) have j: "j < length (phases g1)" by simp
  from step_keeps_phase[OF g1(1) Cons.prems(2)] Cons.IH[OF g1(2) j] show ?case by blast
qed

lemma run_asked:
  "run g evs = Some g' \<Longrightarrow> Acquire i \<in> set evs \<Longrightarrow>
   i < length (phases g) \<and> phases g' ! i \<noteq> Idle"
proof (induction evs arbitrary: g)
  case Nil
  then show ?case by simp
next
  case (Cons ev evs)
  then obtain g1 where g1: "step g ev = Some g1" "run g1 evs = Some g'"
    by (auto split: option.splits)
  show ?case
  proof (cases "ev = Acquire i")
    case True
    with g1(1) have i: "i < length (phases g)" "phases g1 ! i \<noteq> Idle"
      by (auto simp: set_phase_def split: if_splits)
    from step_frame[OF g1(1)] i(1) have "i < length (phases g1)" by simp
    from run_keeps_phase[OF g1(2) this] i show ?thesis by blast
  next
    case False
    with Cons.prems(2) have "Acquire i \<in> set evs" by simp
    from Cons.IH[OF g1(2) this] step_frame[OF g1(1)] show ?thesis by simp
  qed
qed

lemma all_asked:
  assumes "run (New N M) evs = Some g" and "\<forall>i<M. Acquire i \<in> set evs"
  shows "nonidle g = M"
proof -
  from run_frame[OF assms(1)] have len: "length (phases g) = M" by (simp add: New_def)
  have "\<forall>p \<in> set (phases g). p \<noteq> Idle"
  proof
    fix p assume "p \<in> set (phases g)"
    then obtain i where i: "i < length (phases g)" "phases g ! i = p"
      by (auto simp: in_set_conv_nth)
    with len assms(2) have "Acquire i \<in> set evs" by simp
    from run_asked[OF assms(1) this] i(2) show "p \<noteq> Idle" by simp
  qed
  then have "filter (\<lambda>p. p \<noteq> Idle) (phases g) = phases g" by (simp add: filter_id_conv)
  with len show ?thesis by (simp add: nonidle_def)
qed

lemma refused_partition: "refused g = waiting g + cancelled g"
proof -
  have "length (filter (\<lambda>p. p = Waiting \<or> p = Cancelled) xs) =
        length (filter (\<lambda>p. p = Waiting) xs) + length (filter (\<lambda>p. p = Cancelled) xs)"
    for xs :: "phase list"
  proof (induction xs)
    case Nil
    then show ?case by simp
  next
    case (Cons x xs)
    then show ?case by (cases x) simp_all
  qed
  then show ?thesis by (simp add: refused_def waiting_def cancelled_def)
qed

lemma waiting_set_phase:
  "i < length (phases g) \<Longrightarrow>
   waiting (set_phase g i p) + (if phases g ! i = Waiting then 1 else 0)
     = waiting g + (if p = Waiting then 1 else 0)"
  using filter_update[of i "phases g" "\<lambda>p. p = Waiting" p]
  by (simp add: waiting_def set_phase_def)

lemma cancelled_set_phase:
  "i < length (phases g) \<Longrightarrow>
   cancelled (set_phase g i p) + (if phases g ! i = Cancelled then 1 else 0)
     = cancelled g + (if p = Cancelled then 1 else 0)"
  using filter_update[of i "phases g" "\<lambda>p. p = Cancelled" p]
  by (simp add: cancelled_def set_phase_def)

lemma admitted_set_phase:
  "i < length (phases g) \<Longrightarrow>
   admitted (set_phase g i p) + (if phases g ! i = Holding \<or> phases g ! i = Released then 1 else 0)
     = admitted g + (if p = Holding \<or> p = Released then 1 else 0)"
  using filter_update[of i "phases g" "\<lambda>p. p = Holding \<or> p = Released" p]
  by (simp add: admitted_def set_phase_def)

text \<open>Without a Cancel step no operation is cancelled.\<close>

lemma step_uncancelled:
  "step g ev = Some g' \<Longrightarrow> \<not> is_Cancel ev \<Longrightarrow> cancelled g' = cancelled g"
proof (cases ev)
  case (Acquire i)
  assume "step g ev = Some g'"
  with Acquire cancelled_set_phase[of i g Holding] cancelled_set_phase[of i g Waiting]
  show ?thesis by (auto split: if_splits)
next
  case (Admit i)
  assume "step g ev = Some g'"
  with Admit cancelled_set_phase[of i g Holding] show ?thesis by (auto split: if_splits)
next
  case (Cancel i)
  assume "\<not> is_Cancel ev"
  with Cancel show ?thesis by simp
next
  case (Release i)
  assume "step g ev = Some g'"
  with Release cancelled_set_phase[of i g Released] show ?thesis by (auto split: if_splits)
qed

lemma run_uncancelled:
  "run g evs = Some g' \<Longrightarrow> \<forall>ev \<in> set evs. \<not> is_Cancel ev \<Longrightarrow> cancelled g' = cancelled g"
proof (induction evs arbitrary: g)
  case Nil
  then show ?case by simp
next
  case (Cons ev evs)
  then obtain g1 where g1: "step g ev = Some g1" "run g1 evs = Some g'"
    by (auto split: option.splits)
  from Cons.prems(2) have "\<not> is_Cancel ev" "\<forall>ev \<in> set evs. \<not> is_Cancel ev" by simp_all
  from step_uncancelled[OF g1(1) this(1)] Cons.IH[OF g1(2) this(2)] show ?case by simp
qed

text \<open>Once every operation has called, a ticket is given by an Admit step only.\<close>

lemma step_admitted:
  "step g ev = Some g' \<Longrightarrow> nonidle g = length (phases g) \<Longrightarrow>
   admitted g' = admitted g + (if is_Admit ev then 1 else 0) \<and> nonidle g' = length (phases g')"
proof (cases ev)
  case (Acquire i)
  assume s: "step g ev = Some g'" and n: "nonidle g = length (phases g)"
  from s Acquire have i: "i < length (phases g)" "phases g ! i = Idle" by (auto split: if_splits)
  from n have "filter (\<lambda>p. p \<noteq> Idle) (phases g) = phases g"
    unfolding nonidle_def by (metis length_filter_less less_irrefl_nat filter_True)
  then have "\<forall>p \<in> set (phases g). p \<noteq> Idle" by (metis (mono_tags, lifting) filter_id_conv)
  with i have False by (metis nth_mem)
  then show ?thesis ..
next
  case (Admit i)
  assume s: "step g ev = Some g'" and n: "nonidle g = length (phases g)"
  from s Admit have i: "i < length (phases g)" "phases g ! i = Waiting"
    and g': "g' = set_phase g i Holding" by (auto split: if_splits)
  from admitted_set_phase[OF i(1), of Holding] nonidle_set_phase[OF i(1), of Holding] i(2) n Admit
  show ?thesis by (simp add: g')
next
  case (Cancel i)
  assume s: "step g ev = Some g'" and n: "nonidle g = length (phases g)"
  from s Cancel have i: "i < length (phases g)" "phases g ! i = Waiting"
    and g': "g' = set_phase g i Cancelled" by (auto split: if_splits)
  from admitted_set_phase[OF i(1), of Cancelled] nonidle_set_phase[OF i(1), of Cancelled] i(2) n Cancel
  show ?thesis by (simp add: g')
next
  case (Release i)
  assume s: "step g ev = Some g'" and n: "nonidle g = length (phases g)"
  show ?thesis
  proof (cases "phases g ! i = Holding")
    case True
    with s Release have i: "i < length (phases g)" and g': "g' = set_phase g i Released"
      by (auto split: if_splits)
    from admitted_set_phase[OF i, of Released] nonidle_set_phase[OF i, of Released] True n Release
    show ?thesis by (simp add: g')
  next
    case False
    with s Release have "g' = g" by (auto split: if_splits)
    with n Release show ?thesis by simp
  qed
qed

lemma run_admitted:
  "run g evs = Some g' \<Longrightarrow> nonidle g = length (phases g) \<Longrightarrow>
   admitted g' = admitted g + admissions evs \<and> nonidle g' = length (phases g')"
proof (induction evs arbitrary: g)
  case Nil
  then show ?case by (simp add: admissions_def)
next
  case (Cons ev evs)
  then obtain g1 where g1: "step g ev = Some g1" "run g1 evs = Some g'"
    by (auto split: option.splits)
  from step_admitted[OF g1(1) Cons.prems(2)] Cons.IH[OF g1(2)] show ?case
    by (simp add: admissions_def)
qed

lemma run_append:
  "run g (xs @ ys) = (case run g xs of None \<Rightarrow> None | Some g1 \<Rightarrow> run g1 ys)"
  by (induction xs arbitrary: g) (simp_all split: option.splits)

lemma filter_all: "length (filter P xs) = length xs \<Longrightarrow> i < length xs \<Longrightarrow> P (xs ! i)"
  by (metis filter_id_conv length_filter_less less_irrefl_nat nth_mem filter_True)

lemma filter_some: "0 < length (filter P xs) \<Longrightarrow> \<exists>i<length xs. P (xs ! i)"
  by (metis filter_False in_set_conv_nth length_greater_0_conv)

text \<open>
  The state when all have called and no ticket has been released: the semaphore is
  full, and the operations without a ticket are blocked or cancelled.
\<close>

lemma full_before_release:
  assumes "N \<le> M" and "run (New N M) evs = Some g" and "\<forall>i<M. Acquire i \<in> set evs"
      and "\<forall>ev \<in> set evs. \<not> is_Release ev"
  shows "outstanding g = N" "released g = 0" "admitted g = N" "refused g = M - N"
    "nonidle g = length (phases g)" "length (phases g) = M" "capacity g = N"
proof -
  from assms(2,4) have u: "unreleased g" using run_unreleased[OF _ _ New_unreleased] by blast
  from assms(2,3) all_asked have n: "nonidle g = M" by blast
  from run_frame[OF assms(2)] show c: "capacity g = N" and l: "length (phases g) = M"
    by (simp_all add: New_def)
  from u n c assms(1) show o: "outstanding g = N" and r: "released g = 0"
    by (auto simp: unreleased_def)
  with nonidle_partition[of g] admitted_partition[of g] n
  show "admitted g = N" "refused g = M - N" by simp_all
  from n l show "nonidle g = length (phases g)" by simp
qed

lemma New_cancelled: "cancelled (New N M) = 0"
  by (simp add: cancelled_def New_def)

lemma drain:
  "0 < capacity g \<Longrightarrow> outstanding g \<le> capacity g \<Longrightarrow>
   \<exists>later g'. run g later = Some g' \<and> (\<forall>ev \<in> set later. \<not> is_Cancel ev)
      \<and> waiting g' = 0 \<and> outstanding g' = 0"
proof (induction "2 * waiting g + outstanding g" arbitrary: g rule: less_induct)
  case less
  show ?case
  proof (cases "0 < outstanding g")
    case True
    then obtain i where i: "i < length (phases g)" "phases g ! i = Holding"
      unfolding outstanding_def using filter_some[of "\<lambda>p. p = Holding" "phases g"] by blast
    let ?g1 = "set_phase g i Released"
    have s: "step g (Release i) = Some ?g1" using i by simp
    from outstanding_set_phase[OF i(1), of Released] i(2)
    have o: "Suc (outstanding ?g1) = outstanding g" by simp
    from waiting_set_phase[OF i(1), of Released] i(2)
    have w: "waiting ?g1 = waiting g" by simp
    have "2 * waiting ?g1 + outstanding ?g1 < 2 * waiting g + outstanding g"
      using o w by simp
    moreover have "0 < capacity ?g1" "outstanding ?g1 \<le> capacity ?g1"
      using less.prems o by simp_all
    ultimately obtain later g' where l: "run ?g1 later = Some g'"
      "\<forall>ev \<in> set later. \<not> is_Cancel ev" "waiting g' = 0" "outstanding g' = 0"
      using less.hyps[of ?g1] by blast
    show ?thesis
      using s l by (intro exI[of _ "Release i # later"] exI[of _ g']) simp
  next
    case False
    then have o0: "outstanding g = 0" by simp
    show ?thesis
    proof (cases "0 < waiting g")
      case True
      then obtain i where i: "i < length (phases g)" "phases g ! i = Waiting"
        unfolding waiting_def using filter_some[of "\<lambda>p. p = Waiting" "phases g"] by blast
      let ?g1 = "set_phase g i Holding"
      have s: "step g (Admit i) = Some ?g1" using i o0 less.prems(1) by simp
      from outstanding_set_phase[OF i(1), of Holding] i(2) o0
      have o: "outstanding ?g1 = 1" by simp
      from waiting_set_phase[OF i(1), of Holding] i(2)
      have w: "Suc (waiting ?g1) = waiting g" by simp
      have "2 * waiting ?g1 + outstanding ?g1 < 2 * waiting g + outstanding g"
        using o w o0 by simp
      moreover have "0 < capacity ?g1" "outstanding ?g1 \<le> capacity ?g1"
        using less.prems o by simp_all
      ultimately obtain later g' where l: "run ?g1 later = Some g'"
        "\<forall>ev \<in> set later. \<not> is_Cancel ev" "waiting g' = 0" "outstanding g' = 0"
        using less.hyps[of ?g1] by blast
      show ?thesis
        using s l by (intro exI[of _ "Admit i # later"] exI[of _ g']) simp
    next
      case False
      with o0 show ?thesis
        by (intro exI[of _ "[]"] exI[of _ g]) simp
    qed
  qed
qed

lemma run_Some_append:
  "run g xs = Some g1 \<Longrightarrow> run g1 ys = Some g2 \<Longrightarrow> run g (xs @ ys) = Some g2"
  by (simp add: run_append)

lemma admit_needs_release:
  assumes full: "N \<le> M" "run (New N M) evs = Some g" "\<forall>i<M. Acquire i \<in> set evs"
      "\<forall>ev \<in> set evs. \<not> is_Release ev"
    and later: "run g (earlier @ Admit i # rest) = Some g'"
  shows "\<exists>ev \<in> set earlier. is_Release ev"
proof (rule ccontr)
  assume "\<not> (\<exists>ev \<in> set earlier. is_Release ev)"
  then have nr: "\<forall>ev \<in> set (evs @ earlier). \<not> is_Release ev" using full(4) by auto
  from later obtain g1 where g1: "run g earlier = Some g1" "run g1 (Admit i # rest) = Some g'"
    by (auto simp: run_append split: option.splits)
  from run_Some_append[OF full(2) g1(1)] have r: "run (New N M) (evs @ earlier) = Some g1" .
  have a: "\<forall>i<M. Acquire i \<in> set (evs @ earlier)" using full(3) by simp
  from full_before_release(1,7)[OF full(1) r a nr] have "outstanding g1 = capacity g1" by simp
  with g1(2) show False by (auto split: if_splits option.splits)
qed

lemma all_released:
  assumes "released g = length (phases g)" and "i < length (phases g)"
  shows "Acquire_result g i = Some (Inr i)"
proof -
  from filter_all[of "\<lambda>p. p = Released" "phases g" i] assms
  have "phases g ! i = Released" by (simp add: released_def)
  then show ?thesis by (simp add: Acquire_result_def)
qed

lemmas RPC_defs = RPCListFilesystems_def RPCListFilesystemVersions_def RPCSend_def RPCReceive_def
  RPCSDestroySnapshots_def RPCSnapshotReplicationStatus_def

subsection \<open>The sender's filter\<close>

text \<open>
  Claim C2. For a path that parses and that the sender's filter denies, each of
  ListFilesystemVersions, Send and DestroySnapshots of the sender returns the filtered
  error for that path, which is neither an error of the backend nor one of the filter,
  and leaves the state as it was: the world is untouched and no call is logged, so no
  listing, dry run, send or destruction took place.
\<close>

theorem Sender_filtered:
  assumes "NewDatasetPath z fs = Inr dp" and "Sender_FSFilter p dp = Inr False"
  shows "Sender_ListFilesystemVersions z p fs s = (Inl (FilteredError fs), s)
       \<and> Sender_Send z p \<lparr>SendReq_Filesystem = fs, SendReq_From = from, SendReq_To = to\<rparr> s
           = (Inl (FilteredError fs), s)
       \<and> Sender_DestroySnapshots z p
           \<lparr>DestroySnapshotsReq_Filesystem = fs, DestroySnapshotsReq_Snapshots = snaps\<rparr> s
           = (Inl (FilteredError fs), s)
       \<and> (\<forall>e. FilteredError fs \<noteq> ZFSErr e) \<and> (\<forall>e. FilteredError fs \<noteq> PolicyErr e)"
  using assms
  by (simp add: Sender_ListFilesystemVersions_def Sender_Send_def Sender_DestroySnapshots_def)

theorem Sender_filtered_witness:
  "NewDatasetPath example_env ''pool/secret'' = Inr [''pool'', ''secret'']
   \<and> Sender_FSFilter deny_all [''pool'', ''secret''] = Inr False
   \<and> Sender_ListFilesystemVersions example_env deny_all ''pool/secret'' \<lparr>world = [], calls = []\<rparr>
       = (Inl (FilteredError ''pool/secret''), \<lparr>world = [], calls = []\<rparr>)
   \<and> Sender_Send example_env deny_all
        \<lparr>SendReq_Filesystem = ''pool/secret'', SendReq_From = ''a'', SendReq_To = ''b''\<rparr>
        \<lparr>world = [], calls = []\<rparr>
       = (Inl (FilteredError ''pool/secret''), \<lparr>world = [], calls = []\<rparr>)
   \<and> Sender_DestroySnapshots example_env deny_all
        \<lparr>DestroySnapshotsReq_Filesystem = ''pool/secret'',
         DestroySnapshotsReq_Snapshots = [snap ''a'']\<rparr>
        \<lparr>world = [], calls = []\<rparr>
       = (Inl (FilteredError ''pool/secret''), \<lparr>world = [], calls = []\<rparr>)"
proof -
  have h1: "NewDatasetPath example_env ''pool/secret'' = Inr [''pool'', ''secret'']"
    by (simp add: example_env_def)
  have h2: "Sender_FSFilter deny_all [''pool'', ''secret''] = Inr False"
    by (simp add: deny_all_def NewSender_def)
  show ?thesis
    using h1 h2
      Sender_filtered[OF h1 h2, of "\<lparr>world = [], calls = []\<rparr>" "''a''" "''b''" "[snap ''a'']"]
    by simp
qed

subsection \<open>The handler's capability check\<close>

text \<open>
  Claim C5. The handler answers Send and SnapshotReplicationStatus with the error
  "no handler for given endpoint" when the endpoint is not a sender, and Receive when it
  is not a receiver; this is the very error it gives for a name it has no case for. In
  each of these cases the endpoint is not called: its state is unchanged.
\<close>

theorem Handle_no_handler:
  "(ep_as_Sender ep = None \<longrightarrow>
      Handle pr ep RPCSend b stream s = (Inl no_handler, s)
    \<and> Handle pr ep RPCSnapshotReplicationStatus b stream s = (Inl no_handler, s))
 \<and> (ep_as_Receiver ep = None \<longrightarrow> Handle pr ep RPCReceive b stream s = (Inl no_handler, s))
 \<and> (name \<notin> set known_calls \<longrightarrow> Handle pr ep name b stream s = (Inl no_handler, s))
 \<and> no_handler = ErrorsNew ''no handler for given endpoint''"
  by (simp add: Handle_def RPC_defs known_calls_def no_handler_def)

theorem Handle_no_handler_witness:
  "ep_as_Sender receiver_only = None
   \<and> Handle example_proto receiver_only ''Send'' [] None 0 = (Inl no_handler, 0)
   \<and> Handle example_proto receiver_only ''SnapshotReplicationStatus'' [] None 0
       = (Inl no_handler, 0)
   \<and> ep_as_Receiver sender_only = None
   \<and> Handle example_proto sender_only ''Receive'' [] (Some 3) 0 = (Inl no_handler, 0)
   \<and> ''Destroy'' \<notin> set known_calls
   \<and> Handle example_proto sender_only ''Destroy'' [] None 0 = (Inl no_handler, 0)"
  using Handle_no_handler[of receiver_only example_proto "[]" None 0 "''Destroy''"]
    Handle_no_handler[of sender_only example_proto "[]" "Some 3" 0 "''Destroy''"]
    Handle_no_handler[of sender_only example_proto "[]" None 0 "''Destroy''"]
  by (simp add: receiver_only_def sender_only_def known_calls_def RPC_defs)

subsection \<open>The stubs' check of the reply's stream\<close>

text \<open>
  Claim C6. When the request was encoded and the transport returned a reply: Send fails
  with the error "response does not contain a stream" if the reply has no stream; each
  of ListFilesystems, ListFilesystemVersions, DestroySnapshots and Receive fails with
  the error "response contains unexpected stream" if the reply has one, and has closed
  that stream (Receive then closes the stream it was given, as on every path). The
  transport was asked once and is not asked again; the error is made by \<^verbatim>\<open>errors.New\<close>
  and is not an error of the codec.
\<close>

theorem Remote_stream_mismatch:
  "(Marshal pr (Msg_SendReq r) = Inr b
      \<and> RequestReply c (world s) RPCSend b None = (Inr (rb, None), w) \<longrightarrow>
    Remote_Send pr c r s =
      (Inl (ErrorsNew ''response does not contain a stream''),
       \<lparr>world = w, calls = calls s @ [Call_RequestReply RPCSend b None None]\<rparr>))
 \<and> (Marshal pr Msg_ListFilesystemReq = Inr b
      \<and> RequestReply c (world s) RPCListFilesystems b None = (Inr (rb, Some rs), w) \<longrightarrow>
    Remote_ListFilesystems pr c s =
      (Inl (ErrorsNew ''response contains unexpected stream''),
       \<lparr>world = w,
        calls = calls s @ [Call_RequestReply RPCListFilesystems b None None, Call_Close rs]\<rparr>))
 \<and> (Marshal pr (Msg_ListFilesystemVersionsReq \<lparr>ListFilesystemVersionsReq_Filesystem = fs\<rparr>) = Inr b
      \<and> RequestReply c (world s) RPCListFilesystemVersions b None = (Inr (rb, Some rs), w) \<longrightarrow>
    Remote_ListFilesystemVersions pr c fs s =
      (Inl (ErrorsNew ''response contains unexpected stream''),
       \<lparr>world = w,
        calls = calls s @ [Call_RequestReply RPCListFilesystemVersions b None None, Call_Close rs]\<rparr>))
 \<and> (Marshal pr (Msg_DestroySnapshotsReq dreq) = Inr b
      \<and> RequestReply c (world s) RPCSDestroySnapshots b None = (Inr (rb, Some rs), w) \<longrightarrow>
    Remote_DestroySnapshots pr c dreq s =
      (Inl (ErrorsNew ''response contains unexpected stream''),
       \<lparr>world = w,
        calls = calls s @ [Call_RequestReply RPCSDestroySnapshots b None None, Call_Close rs]\<rparr>))
 \<and> (Marshal pr (Msg_ReceiveReq rreq) = Inr b
      \<and> RequestReply c (world s) RPCReceive b (Some sendStream) = (Inr (rb, Some rs), w) \<longrightarrow>
    Remote_Receive pr c rreq sendStream s =
      (Some (ErrorsNew ''response contains unexpected stream''),
       \<lparr>world = w,
        calls = calls s @ [Call_RequestReply RPCReceive b (Some sendStream) None, Call_Close rs,
                           Call_Close sendStream]\<rparr>))
 \<and> (\<forall>text d. ErrorsNew text \<noteq> ProtoErr d)"
  by (simp add: Remote_Send_def Remote_ListFilesystems_def Remote_ListFilesystemVersions_def
      Remote_DestroySnapshots_def Remote_Receive_def Remote_Receive_body_def
      call_RequestReply_def err_of_def logged_def Close_def)

theorem Remote_stream_mismatch_witness:
  "Remote_Send example_proto stream_never
       \<lparr>SendReq_Filesystem = ''pool/a'', SendReq_From = [], SendReq_To = ''s1''\<rparr>
       \<lparr>world = 0, calls = []\<rparr>
     = (Inl (ErrorsNew ''response does not contain a stream''),
        \<lparr>world = 1, calls = [Call_RequestReply ''Send'' [] None None]\<rparr>)
   \<and> Remote_ListFilesystems example_proto stream_always \<lparr>world = 0, calls = []\<rparr>
     = (Inl (ErrorsNew ''response contains unexpected stream''),
        \<lparr>world = 1, calls = [Call_RequestReply ''ListFilesystems'' [] None None, Call_Close 9]\<rparr>)
   \<and> Remote_ListFilesystemVersions example_proto stream_always ''pool/a'' \<lparr>world = 0, calls = []\<rparr>
     = (Inl (ErrorsNew ''response contains unexpected stream''),
        \<lparr>world = 1,
         calls = [Call_RequestReply ''ListFilesystemVersions'' [] None None, Call_Close 9]\<rparr>)
   \<and> Remote_DestroySnapshots example_proto stream_always
       \<lparr>DestroySnapshotsReq_Filesystem = ''pool/a'', DestroySnapshotsReq_Snapshots = []\<rparr>
       \<lparr>world = 0, calls = []\<rparr>
     = (Inl (ErrorsNew ''response contains unexpected stream''),
        \<lparr>world = 1, calls = [Call_RequestReply ''DestroySnapshots'' [] None None, Call_Close 9]\<rparr>)
   \<and> Remote_Receive example_proto stream_always \<lparr>ReceiveReq_Filesystem = ''pool/a''\<rparr> 4
       \<lparr>world = 0, calls = []\<rparr>
     = (Some (ErrorsNew ''response contains unexpected stream''),
        \<lparr>world = 1,
         calls = [Call_RequestReply ''Receive'' [] (Some 4) None, Call_Close 9, Call_Close 4]\<rparr>)"
  using Remote_stream_mismatch[of example_proto
      "\<lparr>SendReq_Filesystem = ''pool/a'', SendReq_From = [], SendReq_To = ''s1''\<rparr>" "[]"
      stream_never "\<lparr>world = 0, calls = []\<rparr>" "[]" 1]
    Remote_stream_mismatch[of example_proto _ "[]" stream_always "\<lparr>world = 0, calls = []\<rparr>" "[]" 1
      9 "''pool/a''"
      "\<lparr>DestroySnapshotsReq_Filesystem = ''pool/a'', DestroySnapshotsReq_Snapshots = []\<rparr>"
      "\<lparr>ReceiveReq_Filesystem = ''pool/a''\<rparr>" 4]
  by (simp add: example_proto_def stream_never_def stream_always_def RPC_defs)

subsection \<open>The batch destruction of snapshots\<close>

text \<open>
  Claim C4, amended. The first requested item that is not of kind snapshot, or that the
  conversion to a version of the backend rejects, ends doDestroySnapshots with one
  error (the "is not a snapshot" error that names the item, or the error of the
  conversion) and the state is as it was: the backend was not asked to destroy
  anything. Otherwise the call succeeds; the backend was asked, at the path given and
  in the order of the request, to destroy each of the N converted versions once, each
  in the world the destruction before left; and there are exactly N results, the i-th
  carrying the i-th version and the text of the backend's error for it, or the empty
  text when its destruction succeeded. So when the backend fails K of them and its
  error texts are not empty, exactly K results carry a non-empty text and N - K an
  empty one.

  The claim as stated fails in two places, shown by the two runs of the counterexample.
  A batch of snapshots only does not always succeed: the conversion rejects a snapshot
  whose creation time is malformed, and the call fails as a whole. And a result of a
  failed destruction carries \<^verbatim>\<open>err.Error()\<close>, which is empty when the text of the
  backend's error is: then the item failed and its result has the empty text.
\<close>

theorem doDestroySnapshots_batch:
  "(snaps = good @ bad # rest \<and> (\<forall>v \<in> set good. convertible z v)
      \<and> fsv_Type bad \<noteq> FilesystemVersion_Snapshot \<longrightarrow>
      doDestroySnapshots z lp snaps s =
        (Inl (FmtErrorf ''version %q is not a snapshot'' (fsv_Name bad)), s))
 \<and> (snaps = good @ bad # rest \<and> (\<forall>v \<in> set good. convertible z v)
      \<and> fsv_Type bad = FilesystemVersion_Snapshot \<and> ZFSFilesystemVersion z bad = Inl cerr \<longrightarrow>
      doDestroySnapshots z lp snaps s = (Inl (PduErr cerr), s))
 \<and> ((\<exists>v \<in> set snaps. fsv_Type v \<noteq> FilesystemVersion_Snapshot
         \<or> (\<exists>err. ZFSFilesystemVersion z v = Inl err)) \<longrightarrow>
      (\<exists>err. doDestroySnapshots z lp snaps s = (Inl err, s)))
 \<and> ((\<forall>v \<in> set snaps. fsv_Type v = FilesystemVersion_Snapshot
         \<and> (\<exists>fv. ZFSFilesystemVersion z v = Inr fv)) \<longrightarrow>
      (\<exists>fsvs outs w'.
         map (ZFSFilesystemVersion z) snaps = map Inr fsvs
       \<and> backend_destroys z lp fsvs (world s) = (outs, w')
       \<and> length fsvs = length snaps \<and> length outs = length snaps
       \<and> doDestroySnapshots z lp snaps s =
           (Inr \<lparr>DestroySnapshotsRes_Results = map (destroy_result z) (zip fsvs outs)\<rparr>,
            \<lparr>world = w', calls = calls s @ map (destroy_call lp) (zip fsvs outs)\<rparr>)
       \<and> map DestroySnapshotRes_Error (map (destroy_result z) (zip fsvs outs))
           = map (\<lambda>r. case r of None \<Rightarrow> [] | Some e \<Rightarrow> zfs_Error e) outs
       \<and> ((\<forall>e. Some e \<in> set outs \<longrightarrow> zfs_Error e \<noteq> []) \<longrightarrow>
            length (filter (\<lambda>r. DestroySnapshotRes_Error r \<noteq> [])
                      (map (destroy_result z) (zip fsvs outs)))
              = length (filter (\<lambda>r. r \<noteq> None) outs)
          \<and> length (filter (\<lambda>r. DestroySnapshotRes_Error r = [])
                      (map (destroy_result z) (zip fsvs outs)))
              = length snaps - length (filter (\<lambda>r. r \<noteq> None) outs))))"
proof -
  have kind: "doDestroySnapshots z lp snaps s =
        (Inl (FmtErrorf ''version %q is not a snapshot'' (fsv_Name bad)), s)"
    if "snaps = good @ bad # rest \<and> (\<forall>v \<in> set good. convertible z v)
      \<and> fsv_Type bad \<noteq> FilesystemVersion_Snapshot"
    using that convert_bad_kind[of good z bad rest] by (simp add: doDestroySnapshots_def)
  have conv: "doDestroySnapshots z lp snaps s = (Inl (PduErr cerr), s)"
    if "snaps = good @ bad # rest \<and> (\<forall>v \<in> set good. convertible z v)
      \<and> fsv_Type bad = FilesystemVersion_Snapshot \<and> ZFSFilesystemVersion z bad = Inl cerr"
    using that convert_bad_conversion[of good z bad cerr rest]
    by (simp add: doDestroySnapshots_def)
  have any: "\<exists>err. doDestroySnapshots z lp snaps s = (Inl err, s)"
    if "\<exists>v \<in> set snaps. fsv_Type v \<noteq> FilesystemVersion_Snapshot
         \<or> (\<exists>err. ZFSFilesystemVersion z v = Inl err)"
    using convert_fails[OF that] by (auto simp: doDestroySnapshots_def)
  have good: "\<exists>fsvs outs w'.
         map (ZFSFilesystemVersion z) snaps = map Inr fsvs
       \<and> backend_destroys z lp fsvs (world s) = (outs, w')
       \<and> length fsvs = length snaps \<and> length outs = length snaps
       \<and> doDestroySnapshots z lp snaps s =
           (Inr \<lparr>DestroySnapshotsRes_Results = map (destroy_result z) (zip fsvs outs)\<rparr>,
            \<lparr>world = w', calls = calls s @ map (destroy_call lp) (zip fsvs outs)\<rparr>)
       \<and> map DestroySnapshotRes_Error (map (destroy_result z) (zip fsvs outs))
           = map (\<lambda>r. case r of None \<Rightarrow> [] | Some e \<Rightarrow> zfs_Error e) outs
       \<and> ((\<forall>e. Some e \<in> set outs \<longrightarrow> zfs_Error e \<noteq> []) \<longrightarrow>
            length (filter (\<lambda>r. DestroySnapshotRes_Error r \<noteq> [])
                      (map (destroy_result z) (zip fsvs outs)))
              = length (filter (\<lambda>r. r \<noteq> None) outs)
          \<and> length (filter (\<lambda>r. DestroySnapshotRes_Error r = [])
                      (map (destroy_result z) (zip fsvs outs)))
              = length snaps - length (filter (\<lambda>r. r \<noteq> None) outs))"
    if a: "\<forall>v \<in> set snaps. fsv_Type v = FilesystemVersion_Snapshot
         \<and> (\<exists>fv. ZFSFilesystemVersion z v = Inr fv)"
  proof -
    from a have "\<forall>v \<in> set snaps. convertible z v" by (simp add: convertible_def)
    from convert_all_good[OF this] obtain fsvs
      where fsvs: "doDestroySnapshots_convert z snaps = Inr fsvs"
        "map (ZFSFilesystemVersion z) snaps = map Inr fsvs" by blast
    from fsvs(2) have len: "length fsvs = length snaps" by (metis length_map)
    obtain outs w' where b: "backend_destroys z lp fsvs (world s) = (outs, w')"
      by (cases "backend_destroys z lp fsvs (world s)")
    with length_backend_destroys[of z lp fsvs "world s"] have lo: "length outs = length fsvs"
      by simp
    let ?results = "map (destroy_result z) (zip fsvs outs)"
    let ?text = "\<lambda>r. case r of None \<Rightarrow> [] | Some e \<Rightarrow> zfs_Error e"
    have run: "doDestroySnapshots z lp snaps s =
           (Inr \<lparr>DestroySnapshotsRes_Results = ?results\<rparr>,
            \<lparr>world = w', calls = calls s @ map (destroy_call lp) (zip fsvs outs)\<rparr>)"
      using fsvs(1) b by (simp add: doDestroySnapshots_def destroy_loop_eq)
    have errs: "map DestroySnapshotRes_Error ?results = map ?text outs"
      using lo by (rule results_errors)
    have count: "length (filter (\<lambda>r. DestroySnapshotRes_Error r \<noteq> []) ?results)
             = length (filter (\<lambda>r. r \<noteq> None) outs)
         \<and> length (filter (\<lambda>r. DestroySnapshotRes_Error r = []) ?results)
             = length snaps - length (filter (\<lambda>r. r \<noteq> None) outs)"
      if ne: "\<forall>e. Some e \<in> set outs \<longrightarrow> zfs_Error e \<noteq> []"
    proof -
      have "length (filter (\<lambda>r. DestroySnapshotRes_Error r \<noteq> []) ?results)
          = length (filter (\<lambda>x. x \<noteq> []) (map DestroySnapshotRes_Error ?results))"
        by (simp only: filter_map comp_def length_map)
      also have "\<dots> = length (filter (\<lambda>r. r \<noteq> None) outs)"
        using error_texts_count[OF ne] by (simp only: errs)
      finally have k: "length (filter (\<lambda>r. DestroySnapshotRes_Error r \<noteq> []) ?results)
          = length (filter (\<lambda>r. r \<noteq> None) outs)" .
      have "length (filter (\<lambda>r. DestroySnapshotRes_Error r = []) ?results)
          + length (filter (\<lambda>r. DestroySnapshotRes_Error r \<noteq> []) ?results) = length ?results"
        using sum_length_filter_compl[of "\<lambda>r. DestroySnapshotRes_Error r = []" ?results] by simp
      moreover have "length ?results = length snaps" using lo len by simp
      ultimately show ?thesis using k by simp
    qed
    show ?thesis
      apply (rule exI[of _ fsvs], rule exI[of _ outs], rule exI[of _ w'])
      using fsvs(2) b len lo run errs count by simp
  qed
  from kind conv any good show ?thesis by blast
qed

theorem doDestroySnapshots_batch_witness:
  "list_all (convertible example_env) [snap ''a'', snap ''busy'', snap ''c'']
   \<and> backend_destroys example_env [''pool'']
        [\<lparr>zv_Type = Snapshot, zv_Name = ''a''\<rparr>, \<lparr>zv_Type = Snapshot, zv_Name = ''busy''\<rparr>,
         \<lparr>zv_Type = Snapshot, zv_Name = ''c''\<rparr>] []
     = ([None, Some (ZFSError ''dataset is busy''), None], [])
   \<and> doDestroySnapshots example_env [''pool''] [snap ''a'', snap ''busy'', snap ''c'']
        \<lparr>world = [], calls = []\<rparr>
     = (Inr \<lparr>DestroySnapshotsRes_Results =
               [\<lparr>DestroySnapshotRes_Snapshot = snap ''a'', DestroySnapshotRes_Error = []\<rparr>,
                \<lparr>DestroySnapshotRes_Snapshot = snap ''busy'',
                 DestroySnapshotRes_Error = ''dataset is busy''\<rparr>,
                \<lparr>DestroySnapshotRes_Snapshot = snap ''c'', DestroySnapshotRes_Error = []\<rparr>]\<rparr>,
        \<lparr>world = [],
         calls =
           [Call_ZFSDestroyFilesystemVersion [''pool''] \<lparr>zv_Type = Snapshot, zv_Name = ''a''\<rparr> None,
            Call_ZFSDestroyFilesystemVersion [''pool''] \<lparr>zv_Type = Snapshot, zv_Name = ''busy''\<rparr>
              (Some (ZFSError ''dataset is busy'')),
            Call_ZFSDestroyFilesystemVersion [''pool''] \<lparr>zv_Type = Snapshot, zv_Name = ''c''\<rparr>
              None]\<rparr>)
   \<and> doDestroySnapshots example_env [''pool'']
        [snap ''a'', \<lparr>fsv_Type = FilesystemVersion_Bookmark, fsv_Name = ''b'', fsv_Creation = []\<rparr>,
         snap ''c'']
        \<lparr>world = [], calls = []\<rparr>
     = (Inl (FmtErrorf ''version %q is not a snapshot'' ''b''), \<lparr>world = [], calls = []\<rparr>)
   \<and> doDestroySnapshots example_env [''pool'']
        [snap ''a'',
         \<lparr>fsv_Type = FilesystemVersion_Snapshot, fsv_Name = ''s1'', fsv_Creation = ''not a time''\<rparr>]
        \<lparr>world = [], calls = []\<rparr>
     = (Inl (PduErr ''cannot parse the creation time''), \<lparr>world = [], calls = []\<rparr>)"
proof -
  let ?bm = "\<lparr>fsv_Type = FilesystemVersion_Bookmark, fsv_Name = ''b'', fsv_Creation = []\<rparr>"
  let ?nt = "\<lparr>fsv_Type = FilesystemVersion_Snapshot, fsv_Name = ''s1'', fsv_Creation = ''not a time''\<rparr>"
  let ?s = "\<lparr>world = ([] :: example_world), calls = []\<rparr>"
  have c: "convertible example_env (snap ''a'')" "convertible example_env (snap ''busy'')"
    "convertible example_env (snap ''c'')"
    by (simp_all add: convertible_def example_env_def snap_def)
  have nt: "ZFSFilesystemVersion example_env ?nt = Inl ''cannot parse the creation time''"
    by (simp add: example_env_def)
  show ?thesis
    using c nt
      doDestroySnapshots_batch[where snaps = "[snap ''a'', snap ''busy'', snap ''c'']"
        and z = example_env and lp = "[''pool'']" and s = ?s]
      doDestroySnapshots_batch[where snaps = "[snap ''a'', ?bm, snap ''c'']"
        and good = "[snap ''a'']" and bad = ?bm and rest = "[snap ''c'']"
        and z = example_env and lp = "[''pool'']" and s = ?s]
      doDestroySnapshots_batch[where snaps = "[snap ''a'', ?nt]"
        and good = "[snap ''a'']" and bad = ?nt and rest = "[]"
        and cerr = "''cannot parse the creation time''"
        and z = example_env and lp = "[''pool'']" and s = ?s]
    by (simp add: doDestroySnapshots_def call_ZFSDestroyFilesystemVersion_def logged_def
        example_env_def snap_def convertible_def)
qed

theorem doDestroySnapshots_batch_counterexample:
  "list_all (\<lambda>v. fsv_Type v = FilesystemVersion_Snapshot)
     [\<lparr>fsv_Type = FilesystemVersion_Snapshot, fsv_Name = ''s1'', fsv_Creation = ''not a time''\<rparr>]
   \<and> doDestroySnapshots example_env [''pool'']
        [\<lparr>fsv_Type = FilesystemVersion_Snapshot, fsv_Name = ''s1'', fsv_Creation = ''not a time''\<rparr>]
        \<lparr>world = [], calls = []\<rparr>
     = (Inl (PduErr ''cannot parse the creation time''), \<lparr>world = [], calls = []\<rparr>)
   \<and> doDestroySnapshots silent_env [''pool''] [snap ''a''] \<lparr>world = [], calls = []\<rparr>
     = (Inr \<lparr>DestroySnapshotsRes_Results =
               [\<lparr>DestroySnapshotRes_Snapshot = snap ''a'', DestroySnapshotRes_Error = []\<rparr>]\<rparr>,
        \<lparr>world = [],
         calls =
           [Call_ZFSDestroyFilesystemVersion [''pool''] \<lparr>zv_Type = Snapshot, zv_Name = ''a''\<rparr>
              (Some (ZFSError []))]\<rparr>)"
  by (simp add: doDestroySnapshots_def call_ZFSDestroyFilesystemVersion_def logged_def
      example_env_def silent_env_def snap_def)

subsection \<open>The forced receive\<close>

text \<open>
  Claim C3. When Receive reaches the backend (the path parses and maps, and the repair
  walk ends without error), it calls the backend's receive exactly once, and the
  arguments of that call are the force directive \<^verbatim>\<open>-F\<close> if the read of the placeholder
  property on the target itself succeeded and IsPlaceholder says true for the value
  read, and the empty list in every other case.
\<close>

theorem Receive_force_iff_placeholder:
  assumes "NewDatasetPath z (ReceiveReq_Filesystem req) = Inr p"
      and "fsmap_Map (Receiver_fsmap e) p = Inr (Some lp)"
      and "Receive_repair z lp s = (None, s1)"
      and "ZFSGet z (world s1) lp [ZREPL_PLACEHOLDER_PROPERTY_NAME z] = (got, w1)"
  shows "recv_args (calls (snd (Receiver_Receive z e req stream s))) =
     recv_args (calls s) @
       [if (\<exists>props. got = Inr props
             \<and> fst (IsPlaceholder z lp (props_Get z props (ZREPL_PLACEHOLDER_PROPERTY_NAME z))))
        then [''-F''] else []]"
proof -
  let ?args = "if (\<exists>props. got = Inr props
             \<and> fst (IsPlaceholder z lp (props_Get z props (ZREPL_PLACEHOLDER_PROPERTY_NAME z))))
        then [''-F''] else []"
  obtain r w2 where r: "ZFSRecv z w1 (ToString z lp) stream ?args = (r, w2)"
    by (cases "ZFSRecv z w1 (ToString z lp) stream ?args")
  from Receive_repair_trace[OF assms(3)] obtain t
    where t: "calls s1 = calls s @ t" "repair_trace (ZREPL_PLACEHOLDER_PROPERTY_NAME z) (ancestors lp) None t"
    by blast
  have "recv_args t = []" using t(2) by (rule repair_trace_recv_args)
  then show ?thesis
    using Receive_reached[OF assms(1,2), of stream s] assms(3) Receive_recv_run[OF assms(4) r] t(1)
    by (simp add: recv_args_append)
qed

theorem Receive_force_iff_placeholder_witness:
  "recv_args (calls (snd (Receiver_Receive example_env example_receiver
       \<lparr>ReceiveReq_Filesystem = ''data''\<rparr> 5
       \<lparr>world = [([''pool''], ''off''), ([''pool'', ''data''], ''on'')], calls = []\<rparr>)))
     = [[''-F'']]
   \<and> recv_args (calls (snd (Receiver_Receive example_env example_receiver
       \<lparr>ReceiveReq_Filesystem = ''data''\<rparr> 5
       \<lparr>world = [([''pool''], ''off''), ([''pool'', ''data''], ''off'')], calls = []\<rparr>)))
     = [[]]"
proof -
  let ?req = "\<lparr>ReceiveReq_Filesystem = ''data''\<rparr>"
  let ?on = "[([''pool''], ''off''), ([''pool'', ''data''], ''on'')]"
  let ?off = "[([''pool''], ''off''), ([''pool'', ''data''], ''off'')]"
  let ?log = "[Call_ZFSGet [''pool''] [''zrepl:placeholder''] None]"
  have h1: "NewDatasetPath example_env (ReceiveReq_Filesystem ?req) = Inr [''data'']"
    by (simp add: example_env_def)
  have h2: "fsmap_Map (Receiver_fsmap example_receiver) [''data''] = Inr (Some [''pool'', ''data''])"
    by (simp add: example_receiver_def prefix_fsmap_def)
  have on3: "Receive_repair example_env [''pool'', ''data''] \<lparr>world = ?on, calls = []\<rparr>
      = (None, \<lparr>world = ?on, calls = ?log\<rparr>)"
    by (simp add: example_run)
  have on4: "ZFSGet example_env (world \<lparr>world = ?on, calls = ?log\<rparr>) [''pool'', ''data'']
        [ZREPL_PLACEHOLDER_PROPERTY_NAME example_env]
      = (Inr [(''zrepl:placeholder'', ''on'')], ?on)"
    by (simp add: example_env_def)
  have off3: "Receive_repair example_env [''pool'', ''data''] \<lparr>world = ?off, calls = []\<rparr>
      = (None, \<lparr>world = ?off, calls = ?log\<rparr>)"
    by (simp add: example_run)
  have off4: "ZFSGet example_env (world \<lparr>world = ?off, calls = ?log\<rparr>) [''pool'', ''data'']
        [ZREPL_PLACEHOLDER_PROPERTY_NAME example_env]
      = (Inr [(''zrepl:placeholder'', ''off'')], ?off)"
    by (simp add: example_env_def)
  show ?thesis
    using Receive_force_iff_placeholder[OF h1 h2 on3 on4, of 5]
      Receive_force_iff_placeholder[OF h1 h2 off3 off4, of 5]
    by (simp add: example_env_def)
qed

text \<open>
  Claim C8. When the read of the placeholder property on the target itself fails,
  Receive does not return that error: it calls the backend's receive without the force
  directive, and what it returns is what that call returned.
\<close>

theorem Receive_swallows_target_probe_error:
  assumes "NewDatasetPath z (ReceiveReq_Filesystem req) = Inr p"
      and "fsmap_Map (Receiver_fsmap e) p = Inr (Some lp)"
      and "Receive_repair z lp s = (None, s1)"
      and "ZFSGet z (world s1) lp [ZREPL_PLACEHOLDER_PROPERTY_NAME z] = (Inl perr, w1)"
      and "ZFSRecv z w1 (ToString z lp) stream [] = (r, w2)"
  shows "Receiver_Receive z e req stream s =
     (map_option ZFSErr r,
      \<lparr>world = w2,
       calls = calls s1 @
         [Call_ZFSGet lp [ZREPL_PLACEHOLDER_PROPERTY_NAME z] (Some perr),
          Call_ZFSRecv (ToString z lp) stream [] r,
          Call_Close stream]\<rparr>)"
  using Receive_reached[OF assms(1,2), of stream s] assms(3)
    Receive_recv_run[OF assms(4), of stream r w2] assms(5)
  by (simp add: Close_def logged_def err_of_def)

theorem Receive_swallows_target_probe_error_witness:
  "Receiver_Receive example_env example_receiver \<lparr>ReceiveReq_Filesystem = ''data''\<rparr> 5
     \<lparr>world = [([''pool''], ''off'')], calls = []\<rparr>
   = (None,
      \<lparr>world = [([''pool''], ''off'')],
       calls =
         [Call_ZFSGet [''pool''] [''zrepl:placeholder''] None,
          Call_ZFSGet [''pool'', ''data''] [''zrepl:placeholder'']
            (Some (DatasetDoesNotExist ''pool/data'')),
          Call_ZFSRecv ''pool/data'' 5 [] None,
          Call_Close 5]\<rparr>)"
proof -
  let ?req = "\<lparr>ReceiveReq_Filesystem = ''data''\<rparr>"
  let ?w = "[([''pool''], ''off'')]"
  let ?log = "[Call_ZFSGet [''pool''] [''zrepl:placeholder''] None]"
  have h1: "NewDatasetPath example_env (ReceiveReq_Filesystem ?req) = Inr [''data'']"
    by (simp add: example_env_def)
  have h2: "fsmap_Map (Receiver_fsmap example_receiver) [''data''] = Inr (Some [''pool'', ''data''])"
    by (simp add: example_receiver_def prefix_fsmap_def)
  have h3: "Receive_repair example_env [''pool'', ''data''] \<lparr>world = ?w, calls = []\<rparr>
      = (None, \<lparr>world = ?w, calls = ?log\<rparr>)"
    by (simp add: example_run)
  have h4: "ZFSGet example_env (world \<lparr>world = ?w, calls = ?log\<rparr>) [''pool'', ''data'']
        [ZREPL_PLACEHOLDER_PROPERTY_NAME example_env]
      = (Inl (DatasetDoesNotExist ''pool/data''), ?w)"
    by (simp add: example_env_def)
  have h5: "ZFSRecv example_env ?w (ToString example_env [''pool'', ''data'']) 5 [] = (None, ?w)"
    by (simp add: example_env_def)
  show ?thesis
    using Receive_swallows_target_probe_error[OF h1 h2 h3 h4 h5]
    by (simp add: example_env_def)
qed

subsection \<open>The repair of the ancestors\<close>

text \<open>
  Claim C7, amended. The repair walk of Receive is the repair over the ancestors of the
  target, root first: it makes the calls of \<open>repair_ancestors\<close>, leaves the world that
  leaves and ends with the error that ends with. So it probes ancestors of the target
  only, each at most once; the ancestors are the strict, non-empty prefixes of the
  target, so neither the target nor a sibling of an ancestor is touched. It attempts
  to create a placeholder exactly at the ancestors whose probe failed. It ends with an
  error only when a creation failed, which is then its last call; when no creation
  fails it ends without error, has probed every ancestor, also those below an ancestor
  that exists, and has created a placeholder at each one whose probe failed.

  The claim as stated has the walk stop below a path that is found to exist. The
  counterexample is a receive into \<open>pool/a/b\<close> where \<open>pool\<close> exists and \<open>pool/a\<close> does
  not: after the probe of \<open>pool\<close> succeeds, the walk goes on to \<open>pool/a\<close> and creates it.
\<close>

theorem Receive_repair_ancestors:
  assumes "Receive_repair z lp s = (ve, s')"
  shows "\<exists>t. calls s' = calls s @ t
     \<and> repair_ancestors z (ancestors lp) (world s) = (ve, world s', t)
     \<and> prefix (probed t) (ancestors lp)
     \<and> create_attempted t = probe_failed t
     \<and> prefix (created t) (probe_failed t)
     \<and> length t = length (probed t) + length (create_attempted t)
     \<and> (ve = None \<longrightarrow> probed t = ancestors lp \<and> created t = probe_failed t)
     \<and> (\<forall>ce. ve = Some ce \<longrightarrow>
          (\<exists>t0 a. t = t0 @ [Call_ZFSCreatePlaceholderFilesystem a (Some ce)]
             \<and> (\<forall>v ce'. Call_ZFSCreatePlaceholderFilesystem v (Some ce') \<notin> set t0)))
     \<and> ((\<forall>v ce. Call_ZFSCreatePlaceholderFilesystem v (Some ce) \<notin> set t) \<longrightarrow>
          ve = None \<and> probed t = ancestors lp \<and> created t = probe_failed t)
     \<and> (\<forall>a \<in> set (ancestors lp). strict_prefix a lp \<and> a \<noteq> [])"
proof -
  from Receive_repair_trace[OF assms] obtain t
    where t: "calls s' = calls s @ t"
      "repair_trace (ZREPL_PLACEHOLDER_PROPERTY_NAME z) (ancestors lp) ve t"
    by blast
  obtain ve1 w1 t1 where r: "repair_ancestors z (ancestors lp) (world s) = (ve1, w1, t1)"
    by (cases "repair_ancestors z (ancestors lp) (world s)")
  with assms Receive_repair_ancestors_eq[of z lp s] t(1)
  have eq: "repair_ancestors z (ancestors lp) (world s) = (ve, world s', t)" by auto
  have halted: "\<exists>t0 a. t = t0 @ [Call_ZFSCreatePlaceholderFilesystem a (Some ce)]
             \<and> (\<forall>v ce'. Call_ZFSCreatePlaceholderFilesystem v (Some ce') \<notin> set t0)"
    if "ve = Some ce" for ce
    using repair_trace_halted[OF t(2) that] .
  have unhalted: "ve = None"
    if "\<forall>v ce. Call_ZFSCreatePlaceholderFilesystem v (Some ce) \<notin> set t"
  proof (cases ve)
    case None
    then show ?thesis .
  next
    case (Some ce)
    from halted[OF this] that show ?thesis by auto
  qed
  show ?thesis
    using t(1) eq repair_trace_lists[OF t(2)] repair_trace_completed[OF t(2)] halted unhalted
      ancestors_strict[of _ lp]
    by (intro exI[of _ t]) blast
qed

theorem Receive_repair_ancestors_witness:
  "Receive_repair example_env [''pool'', ''a'', ''b'', ''c'']
     \<lparr>world = [([''pool''], ''off'')], calls = []\<rparr>
   = (None,
      \<lparr>world = [([''pool''], ''off''), ([''pool'', ''a''], ''on''), ([''pool'', ''a'', ''b''], ''on'')],
       calls =
         [Call_ZFSGet [''pool''] [''zrepl:placeholder''] None,
          Call_ZFSGet [''pool'', ''a''] [''zrepl:placeholder''] (Some (DatasetDoesNotExist ''pool/a'')),
          Call_ZFSCreatePlaceholderFilesystem [''pool'', ''a''] None,
          Call_ZFSGet [''pool'', ''a'', ''b''] [''zrepl:placeholder'']
            (Some (DatasetDoesNotExist ''pool/a/b'')),
          Call_ZFSCreatePlaceholderFilesystem [''pool'', ''a'', ''b''] None]\<rparr>)
   \<and> ancestors [''pool'', ''a'', ''b'', ''c'']
       = [[''pool''], [''pool'', ''a''], [''pool'', ''a'', ''b'']]
   \<and> Receive_repair unreadable_env [''pool'', ''a'', ''b'']
       \<lparr>world = [([''pool''], ''off'')], calls = []\<rparr>
     = (Some (ZFSError ''dataset already exists''),
        \<lparr>world = [([''pool''], ''off'')],
         calls =
           [Call_ZFSGet [''pool''] [''zrepl:placeholder''] (Some (ZFSError ''permission denied'')),
            Call_ZFSCreatePlaceholderFilesystem [''pool'']
              (Some (ZFSError ''dataset already exists''))]\<rparr>)"
proof -
  have h1: "Receive_repair example_env [''pool'', ''a'', ''b'', ''c'']
     \<lparr>world = [([''pool''], ''off'')], calls = []\<rparr>
   = (None,
      \<lparr>world = [([''pool''], ''off''), ([''pool'', ''a''], ''on''), ([''pool'', ''a'', ''b''], ''on'')],
       calls =
         [Call_ZFSGet [''pool''] [''zrepl:placeholder''] None,
          Call_ZFSGet [''pool'', ''a''] [''zrepl:placeholder''] (Some (DatasetDoesNotExist ''pool/a'')),
          Call_ZFSCreatePlaceholderFilesystem [''pool'', ''a''] None,
          Call_ZFSGet [''pool'', ''a'', ''b''] [''zrepl:placeholder'']
            (Some (DatasetDoesNotExist ''pool/a/b'')),
          Call_ZFSCreatePlaceholderFilesystem [''pool'', ''a'', ''b''] None]\<rparr>)"
    by (simp add: example_run)
  have h3: "Receive_repair unreadable_env [''pool'', ''a'', ''b'']
       \<lparr>world = [([''pool''], ''off'')], calls = []\<rparr>
     = (Some (ZFSError ''dataset already exists''),
        \<lparr>world = [([''pool''], ''off'')],
         calls =
           [Call_ZFSGet [''pool''] [''zrepl:placeholder''] (Some (ZFSError ''permission denied'')),
            Call_ZFSCreatePlaceholderFilesystem [''pool'']
              (Some (ZFSError ''dataset already exists''))]\<rparr>)"
    by (simp add: example_run)
  show ?thesis
    using h1 h3 Receive_repair_ancestors[OF h1] Receive_repair_ancestors[OF h3]
    by (simp add: ancestors_def)
qed

theorem Receive_repair_ancestors_counterexample:
  "Receiver_Receive example_env example_receiver \<lparr>ReceiveReq_Filesystem = ''a/b''\<rparr> 5
     \<lparr>world = [([''pool''], ''off'')], calls = []\<rparr>
   = (None,
      \<lparr>world = [([''pool''], ''off''), ([''pool'', ''a''], ''on'')],
       calls =
         [Call_ZFSGet [''pool''] [''zrepl:placeholder''] None,
          Call_ZFSGet [''pool'', ''a''] [''zrepl:placeholder''] (Some (DatasetDoesNotExist ''pool/a'')),
          Call_ZFSCreatePlaceholderFilesystem [''pool'', ''a''] None,
          Call_ZFSGet [''pool'', ''a'', ''b''] [''zrepl:placeholder'']
            (Some (DatasetDoesNotExist ''pool/a/b'')),
          Call_ZFSRecv ''pool/a/b'' 5 [] None,
          Call_Close 5]\<rparr>)"
  by (simp add: example_run)

text \<open>
  Claim C1, amended. In the log of a Receive whose path parses and maps, every failed
  probe of a path other than the target, whatever the error, is followed at once by an
  attempt to create a placeholder at that path. A creation that fails is the last call
  before the stream is closed, and its error is what Receive returns; and when no
  creation fails, every ancestor and then the target has been probed.

  The claim as stated has a probe failure other than absence end the walk and be
  returned. The counterexample is a backend whose reads fail with "permission denied":
  the creation is attempted all the same, and Receive returns the error of the
  creation, not that of the probe.
\<close>

theorem Receive_probe_failure_creates:
  assumes "NewDatasetPath z (ReceiveReq_Filesystem req) = Inr p"
      and "fsmap_Map (Receiver_fsmap e) p = Inr (Some lp)"
      and "Receiver_Receive z e req stream s = (result, s')"
  shows "\<exists>t. calls s' = calls s @ t
     \<and> (\<forall>i v names perr.
          i < length t \<and> t ! i = Call_ZFSGet v names (Some perr) \<and> v \<noteq> lp \<longrightarrow>
          Suc i < length t \<and> (\<exists>cr. t ! Suc i = Call_ZFSCreatePlaceholderFilesystem v cr))
     \<and> (\<forall>v ce. Call_ZFSCreatePlaceholderFilesystem v (Some ce) \<in> set t \<longrightarrow>
          result = Some (ZFSErr ce)
          \<and> (\<exists>t0. t = t0 @ [Call_ZFSCreatePlaceholderFilesystem v (Some ce), Call_Close stream]))
     \<and> ((\<forall>v ce. Call_ZFSCreatePlaceholderFilesystem v (Some ce) \<notin> set t) \<longrightarrow>
          probed t = ancestors lp @ [lp])"
proof -
  let ?n = "ZREPL_PLACEHOLDER_PROPERTY_NAME z"
  obtain ve s1 where rep: "Receive_repair z lp s = (ve, s1)" by (cases "Receive_repair z lp s")
  from Receive_repair_trace[OF rep] obtain tw
    where tw: "calls s1 = calls s @ tw" "repair_trace ?n (ancestors lp) ve tw"
    by blast
  note fol = repair_trace_followed[OF tw(2)]
  show ?thesis
  proof (cases ve)
    case (Some ce)
    from repair_trace_halted[OF tw(2) Some] obtain t0 a
      where t0: "tw = t0 @ [Call_ZFSCreatePlaceholderFilesystem a (Some ce)]"
        "\<forall>v ce'. Call_ZFSCreatePlaceholderFilesystem v (Some ce') \<notin> set t0" by blast
    let ?t = "tw @ [Call_Close stream]"
    have res: "result = Some (ZFSErr ce)" "calls s' = calls s @ ?t"
      using Receive_reached[OF assms(1,2), of stream s] rep Some assms(3) tw(1) by auto
    have one: "\<forall>i v names perr.
          i < length ?t \<and> ?t ! i = Call_ZFSGet v names (Some perr) \<and> v \<noteq> lp \<longrightarrow>
          Suc i < length ?t \<and> (\<exists>cr. ?t ! Suc i = Call_ZFSCreatePlaceholderFilesystem v cr)"
      using followed_append[of tw "[Call_Close stream]" lp, OF fol] by simp
    have two: "\<forall>v ce'. Call_ZFSCreatePlaceholderFilesystem v (Some ce') \<in> set ?t \<longrightarrow>
          result = Some (ZFSErr ce')
          \<and> (\<exists>t0. ?t = t0 @ [Call_ZFSCreatePlaceholderFilesystem v (Some ce'), Call_Close stream])"
      using t0 res(1) by auto
    have three: "\<not> (\<forall>v ce. Call_ZFSCreatePlaceholderFilesystem v (Some ce) \<notin> set ?t)"
      using t0(1) by auto
    show ?thesis
      using res(2) one two three by (intro exI[of _ ?t]) blast
  next
    case None
    obtain got w1 where got: "ZFSGet z (world s1) lp [?n] = (got, w1)"
      by (cases "ZFSGet z (world s1) lp [?n]")
    let ?args = "if (\<exists>props. got = Inr props \<and> fst (IsPlaceholder z lp (props_Get z props ?n)))
                 then [''-F''] else []"
    obtain r w2 where r: "ZFSRecv z w1 (ToString z lp) stream ?args = (r, w2)"
      by (cases "ZFSRecv z w1 (ToString z lp) stream ?args")
    let ?rest = "[Call_ZFSGet lp [?n] (err_of got), Call_ZFSRecv (ToString z lp) stream ?args r,
                  Call_Close stream]"
    let ?t = "tw @ ?rest"
    have res: "calls s' = calls s @ ?t"
      using Receive_reached[OF assms(1,2), of stream s] rep None assms(3) tw(1)
        Receive_recv_run[OF got r] by auto
    have one: "\<forall>i v names perr.
          i < length ?t \<and> ?t ! i = Call_ZFSGet v names (Some perr) \<and> v \<noteq> lp \<longrightarrow>
          Suc i < length ?t \<and> (\<exists>cr. ?t ! Suc i = Call_ZFSCreatePlaceholderFilesystem v cr)"
      using followed_append[of tw ?rest lp, OF fol] by auto
    from repair_trace_completed[OF tw(2) None]
    have fin: "\<forall>v ce. Call_ZFSCreatePlaceholderFilesystem v (Some ce) \<notin> set tw"
      "probed tw = ancestors lp" by simp_all
    have two: "\<forall>v ce. Call_ZFSCreatePlaceholderFilesystem v (Some ce) \<notin> set ?t"
      using fin(1) by simp
    have three: "probed ?t = ancestors lp @ [lp]"
      using fin(2) by (simp add: probed_append)
    show ?thesis
      using res one two three by (intro exI[of _ ?t]) blast
  qed
qed

theorem Receive_probe_failure_creates_witness:
  "NewDatasetPath unreadable_env ''fs'' = Inr [''fs'']
   \<and> fsmap_Map (Receiver_fsmap example_receiver) [''fs''] = Inr (Some [''pool'', ''fs''])
   \<and> Receiver_Receive unreadable_env example_receiver \<lparr>ReceiveReq_Filesystem = ''fs''\<rparr> 5
       \<lparr>world = [], calls = []\<rparr>
     = (None,
        \<lparr>world = [([''pool''], ''on'')],
         calls =
           [Call_ZFSGet [''pool''] [''zrepl:placeholder''] (Some (ZFSError ''permission denied'')),
            Call_ZFSCreatePlaceholderFilesystem [''pool''] None,
            Call_ZFSGet [''pool'', ''fs''] [''zrepl:placeholder'']
              (Some (ZFSError ''permission denied'')),
            Call_ZFSRecv ''pool/fs'' 5 [] None,
            Call_Close 5]\<rparr>)"
proof -
  let ?req = "\<lparr>ReceiveReq_Filesystem = ''fs''\<rparr>"
  have h1: "NewDatasetPath unreadable_env (ReceiveReq_Filesystem ?req) = Inr [''fs'']"
    by (simp add: example_env_def unreadable_env_def)
  have h2: "fsmap_Map (Receiver_fsmap example_receiver) [''fs''] = Inr (Some [''pool'', ''fs''])"
    by (simp add: example_receiver_def prefix_fsmap_def)
  have h3: "Receiver_Receive unreadable_env example_receiver ?req 5 \<lparr>world = [], calls = []\<rparr>
     = (None,
        \<lparr>world = [([''pool''], ''on'')],
         calls =
           [Call_ZFSGet [''pool''] [''zrepl:placeholder''] (Some (ZFSError ''permission denied'')),
            Call_ZFSCreatePlaceholderFilesystem [''pool''] None,
            Call_ZFSGet [''pool'', ''fs''] [''zrepl:placeholder'']
              (Some (ZFSError ''permission denied'')),
            Call_ZFSRecv ''pool/fs'' 5 [] None,
            Call_Close 5]\<rparr>)"
    by (simp add: example_run)
  show ?thesis
    using h1 h2 h3 Receive_probe_failure_creates[OF h1 h2 h3]
    by simp
qed

theorem Receive_probe_failure_creates_counterexample:
  "Receiver_Receive unreadable_env example_receiver \<lparr>ReceiveReq_Filesystem = ''fs''\<rparr> 5
     \<lparr>world = [([''pool''], ''off'')], calls = []\<rparr>
   = (Some (ZFSErr (ZFSError ''dataset already exists'')),
      \<lparr>world = [([''pool''], ''off'')],
       calls =
         [Call_ZFSGet [''pool''] [''zrepl:placeholder''] (Some (ZFSError ''permission denied'')),
          Call_ZFSCreatePlaceholderFilesystem [''pool''] (Some (ZFSError ''dataset already exists'')),
          Call_Close 5]\<rparr>)"
  by (simp add: example_run)

subsection \<open>The construction of a receiver\<close>

text \<open>
  Claim C9. NewReceiver calls Invert on the map once, whatever it returns. When the
  inversion fails, NewReceiver returns that error and no receiver; otherwise the
  receiver holds the inverse next to the map. No method of the receiver calls Invert:
  ListFilesystems, which uses the stored inverse, ListFilesystemVersions, Receive and
  DestroySnapshots leave the number of inversions in the log as it was.
\<close>

theorem NewReceiver_inverts_once:
  "NewReceiver fsmap fsvf s =
     ((case fsmap_Invert fsmap of
         Inl err \<Rightarrow> Inl (PolicyErr err)
       | Inr fsmapInv \<Rightarrow>
           Inr \<lparr>Receiver_fsmapInv = fsmapInv, Receiver_fsmap = fsmap, Receiver_fsvf = fsvf\<rparr>),
      \<lparr>world = world s, calls = calls s @ [Call_Invert (err_of (fsmap_Invert fsmap))]\<rparr>)
   \<and> inversions (calls (snd (NewReceiver fsmap fsvf s))) = Suc (inversions (calls s))
   \<and> inversions (calls (snd (Receiver_ListFilesystems z e s))) = inversions (calls s)
   \<and> inversions (calls (snd (Receiver_ListFilesystemVersions z e fs s))) = inversions (calls s)
   \<and> inversions (calls (snd (Receiver_Receive z e req stream s))) = inversions (calls s)
   \<and> inversions (calls (snd (Receiver_DestroySnapshots z e dreq s))) = inversions (calls s)"
  by (simp add: NewReceiver_def call_Invert_def logged_def inversions_append
      Receiver_ListFilesystems_def call_ZFSListMapping_def
      Receiver_ListFilesystemVersions_def Receiver_DestroySnapshots_def
      call_ZFSListFilesystemVersions_def doDestroySnapshots_inversions Receive_inversions
      split_beta split: sum.splits option.splits)

theorem NewReceiver_inverts_once_witness:
  "NewReceiver noninvertible_fsmap (\<lambda>v. Inr True) \<lparr>world = (), calls = []\<rparr>
     = (Inl (PolicyErr ''mapping is not invertible''),
        \<lparr>world = (), calls = [Call_Invert (Some ''mapping is not invertible'')]\<rparr>)
   \<and> NewReceiver prefix_fsmap (\<lambda>v. Inr True) \<lparr>world = (), calls = []\<rparr>
     = (Inr example_receiver, \<lparr>world = (), calls = [Call_Invert None]\<rparr>)
   \<and> inversions (calls (snd (NewReceiver prefix_fsmap (\<lambda>v. Inr True)
        \<lparr>world = (), calls = []\<rparr>))) = 1"
  using
    NewReceiver_inverts_once[of noninvertible_fsmap "\<lambda>v. Inr True" "\<lparr>world = (), calls = []\<rparr>"]
    NewReceiver_inverts_once[of prefix_fsmap "\<lambda>v. Inr True" "\<lparr>world = (), calls = []\<rparr>"]
  by (simp add: noninvertible_fsmap_def prefix_fsmap_def example_receiver_def err_of_def)

subsection \<open>The bound of the semaphore\<close>

text \<open>
  Claim C10. For a semaphore of capacity \<open>N\<close> used by \<open>M\<close> operations, in every schedule:
  at most \<open>N\<close> tickets are outstanding after any number of steps, so at any instant.

  When \<open>N \<le> M\<close>, all \<open>M\<close> operations have called Acquire and no ticket has been released
  yet (each holds its ticket for a duration longer than it takes all of them to call),
  exactly \<open>N\<close> operations have been given a ticket and exactly \<open>M - N\<close> have not; unless a
  context was cancelled, these \<open>M - N\<close> are blocked, none has failed. From then on every
  ticket is given by an Admit step, and every Admit step comes after a Release step. In
  every continuation without cancellation that leaves no operation blocked, all \<open>M\<close>
  have been admitted and exactly \<open>M - N\<close> of them by an Admit step, so after a release;
  and when \<open>0 < N\<close> there is such a continuation, after which every call of Acquire has
  returned a ticket.

  A blocked operation can be admitted whenever a slot is free, and its call then
  returns a ticket; a release frees one slot, and releasing the same ticket again
  changes nothing. A blocked operation whose context is cancelled gets the
  cancellation error, the tickets outstanding do not change, and the operation never
  holds a ticket afterwards.
\<close>

theorem semaphore_bounded:
  "(run (New N M) evs = Some g \<longrightarrow> outstanding g \<le> N)
 \<and> (N \<le> M \<and> run (New N M) evs = Some g \<and> (\<forall>i<M. Acquire i \<in> set evs)
      \<and> (\<forall>ev \<in> set evs. \<not> is_Release ev) \<longrightarrow>
    admitted g = N \<and> refused g = M - N
    \<and> ((\<forall>ev \<in> set evs. \<not> is_Cancel ev) \<longrightarrow> waiting g = M - N)
    \<and> (\<forall>later g'. run g later = Some g' \<longrightarrow> admitted g' = N + admissions later)
    \<and> (\<forall>earlier j rest g'. run g (earlier @ Admit j # rest) = Some g' \<longrightarrow>
          (\<exists>ev \<in> set earlier. is_Release ev))
    \<and> (\<forall>later g'. run g later = Some g' \<and> (\<forall>ev \<in> set (evs @ later). \<not> is_Cancel ev)
            \<and> waiting g' = 0 \<longrightarrow>
          admitted g' = M \<and> admissions later = M - N)
    \<and> (0 < N \<and> (\<forall>ev \<in> set evs. \<not> is_Cancel ev) \<longrightarrow>
          (\<exists>later g'. run g later = Some g' \<and> released g' = M \<and> admissions later = M - N
             \<and> (\<forall>k<M. Acquire_result g' k = Some (Inr k)))))
 \<and> (run (New N M) evs = Some g \<and> i < M \<and> phases g ! i = Waiting \<and> outstanding g < N \<longrightarrow>
      (\<exists>g'. step g (Admit i) = Some g' \<and> Acquire_result g' i = Some (Inr i)
         \<and> outstanding g' = Suc (outstanding g)))
 \<and> (run (New N M) evs = Some g \<and> i < M \<and> phases g ! i = Holding \<longrightarrow>
      (\<exists>g'. step g (Release i) = Some g' \<and> Suc (outstanding g') = outstanding g
         \<and> step g' (Release i) = Some g'))
 \<and> (run (New N M) evs = Some g \<and> step g (Cancel i) = Some g1 \<and> run g1 evs' = Some g2 \<longrightarrow>
    phases g2 ! i = Cancelled \<and> Acquire_result g2 i = Some (Inl ContextCanceled)
    \<and> outstanding g1 = outstanding g)"
proof -
  have safe: "outstanding g \<le> N" if "run (New N M) evs = Some g"
    using run_bounded[OF that] run_frame[OF that] by (simp add: New_outstanding)
  have before: "admitted g = N \<and> refused g = M - N
    \<and> ((\<forall>ev \<in> set evs. \<not> is_Cancel ev) \<longrightarrow> waiting g = M - N)
    \<and> (\<forall>later g'. run g later = Some g' \<longrightarrow> admitted g' = N + admissions later)
    \<and> (\<forall>earlier j rest g'. run g (earlier @ Admit j # rest) = Some g' \<longrightarrow>
          (\<exists>ev \<in> set earlier. is_Release ev))
    \<and> (\<forall>later g'. run g later = Some g' \<and> (\<forall>ev \<in> set (evs @ later). \<not> is_Cancel ev)
            \<and> waiting g' = 0 \<longrightarrow>
          admitted g' = M \<and> admissions later = M - N)
    \<and> (0 < N \<and> (\<forall>ev \<in> set evs. \<not> is_Cancel ev) \<longrightarrow>
          (\<exists>later g'. run g later = Some g' \<and> released g' = M \<and> admissions later = M - N
             \<and> (\<forall>k<M. Acquire_result g' k = Some (Inr k))))"
    if a: "N \<le> M \<and> run (New N M) evs = Some g \<and> (\<forall>i<M. Acquire i \<in> set evs)
      \<and> (\<forall>ev \<in> set evs. \<not> is_Release ev)"
  proof -
    from a have f: "N \<le> M" "run (New N M) evs = Some g" "\<forall>i<M. Acquire i \<in> set evs"
      "\<forall>ev \<in> set evs. \<not> is_Release ev" by simp_all
    note full = full_before_release[OF f]
    have p1: "admitted g = N \<and> refused g = M - N" using full(3,4) by simp
    have p2: "waiting g = M - N" if nc: "\<forall>ev \<in> set evs. \<not> is_Cancel ev"
      using run_uncancelled[OF f(2) nc] New_cancelled[of N M] refused_partition[of g] full(4)
      by simp
    have p3: "admitted g' = N + admissions later" if "run g later = Some g'" for later g'
      using run_admitted[OF that full(5)] full(3) by simp
    have p4: "\<exists>ev \<in> set earlier. is_Release ev"
      if "run g (earlier @ Admit j # rest) = Some g'" for earlier j rest g'
      using admit_needs_release[OF f that] .
    have p5: "admitted g' = M \<and> admissions later = M - N"
      if r: "run g later = Some g'" and nc: "\<forall>ev \<in> set (evs @ later). \<not> is_Cancel ev"
        and w: "waiting g' = 0" for later g'
    proof -
      from run_Some_append[OF f(2) r] have "run (New N M) (evs @ later) = Some g'" .
      from run_uncancelled[OF this nc] have c: "cancelled g' = 0" by (simp add: New_cancelled)
      from run_admitted[OF r full(5)] run_frame[OF r] full(6)
      have n: "nonidle g' = M" by simp
      from nonidle_partition[of g'] admitted_partition[of g'] refused_partition[of g'] c w n
      have "admitted g' = M" by simp
      with p3[OF r] f(1) show ?thesis by simp
    qed
    have p6: "\<exists>later g'. run g later = Some g' \<and> released g' = M \<and> admissions later = M - N
             \<and> (\<forall>k<M. Acquire_result g' k = Some (Inr k))"
      if pos: "0 < N" and nc: "\<forall>ev \<in> set evs. \<not> is_Cancel ev"
    proof -
      from drain[of g] pos full(1,7) obtain later g' where l: "run g later = Some g'"
        "\<forall>ev \<in> set later. \<not> is_Cancel ev" "waiting g' = 0" "outstanding g' = 0"
        by auto
      from nc l(2) have nc': "\<forall>ev \<in> set (evs @ later). \<not> is_Cancel ev" by auto
      from p5[OF l(1) nc' l(3)] have ad: "admitted g' = M" "admissions later = M - N"
        by simp_all
      from admitted_partition[of g'] ad(1) l(4) have rel: "released g' = M" by simp
      from run_frame[OF l(1)] full(6) have len: "length (phases g') = M" by simp
      from all_released[of g'] rel len
      have "\<forall>k<M. Acquire_result g' k = Some (Inr k)" by simp
      with l(1) rel ad(2) show ?thesis by blast
    qed
    from p1 p2 p3 p4 p5 p6 show ?thesis by blast
  qed
  have admit: "\<exists>g'. step g (Admit i) = Some g' \<and> Acquire_result g' i = Some (Inr i)
         \<and> outstanding g' = Suc (outstanding g)"
    if a: "run (New N M) evs = Some g \<and> i < M \<and> phases g ! i = Waiting \<and> outstanding g < N"
  proof -
    from a run_frame[of "New N M" evs g] have i: "i < length (phases g)" and c: "capacity g = N"
      by (simp_all add: New_def)
    from outstanding_set_phase[OF i, of Holding] a
    have "outstanding (set_phase g i Holding) = Suc (outstanding g)" by simp
    with a i c show ?thesis
      by (intro exI[of _ "set_phase g i Holding"]) (simp add: Acquire_result_def set_phase_def)
  qed
  have release: "\<exists>g'. step g (Release i) = Some g' \<and> Suc (outstanding g') = outstanding g
         \<and> step g' (Release i) = Some g'"
    if a: "run (New N M) evs = Some g \<and> i < M \<and> phases g ! i = Holding"
  proof -
    from a run_frame[of "New N M" evs g] have i: "i < length (phases g)"
      by (simp add: New_def)
    from outstanding_set_phase[OF i, of Released] a
    have "Suc (outstanding (set_phase g i Released)) = outstanding g" by simp
    with a i show ?thesis
      by (intro exI[of _ "set_phase g i Released"]) (simp add: set_phase_def)
  qed
  have cancel: "phases g2 ! i = Cancelled \<and> Acquire_result g2 i = Some (Inl ContextCanceled)
      \<and> outstanding g1 = outstanding g"
    if a: "run (New N M) evs = Some g \<and> step g (Cancel i) = Some g1 \<and> run g1 evs' = Some g2"
  proof -
    from a have i: "i < length (phases g)" "phases g ! i = Waiting"
      and g1: "g1 = set_phase g i Cancelled"
      by (auto split: if_splits)
    then have c: "phases g1 ! i = Cancelled" "i < length (phases g1)"
      by (simp_all add: set_phase_def)
    from a run_keeps_phase[of g1 evs' g2 i] c have c2: "phases g2 ! i = Cancelled" by blast
    from outstanding_set_phase[OF i(1), of Cancelled] i(2) g1
    have "outstanding g1 = outstanding g" by simp
    with c2 show ?thesis by (simp add: Acquire_result_def)
  qed
  from safe before admit release cancel show ?thesis by blast
qed

theorem semaphore_bounded_witness:
  "run (New 2 3) [Acquire 0, Acquire 1, Acquire 2]
     = Some \<lparr>capacity = 2, phases = [Holding, Holding, Waiting]\<rparr>
   \<and> list_all (\<lambda>i. Acquire i \<in> set [Acquire 0, Acquire 1, Acquire 2]) [0, 1, 2]
   \<and> list_all (\<lambda>ev. \<not> is_Release ev \<and> \<not> is_Cancel ev) [Acquire 0, Acquire 1, Acquire 2]
   \<and> outstanding \<lparr>capacity = 2, phases = [Holding, Holding, Waiting]\<rparr> = 2
   \<and> admitted \<lparr>capacity = 2, phases = [Holding, Holding, Waiting]\<rparr> = 2
   \<and> waiting \<lparr>capacity = 2, phases = [Holding, Holding, Waiting]\<rparr> = 1
   \<and> run \<lparr>capacity = 2, phases = [Holding, Holding, Waiting]\<rparr> [Admit 2] = None
   \<and> run \<lparr>capacity = 2, phases = [Holding, Holding, Waiting]\<rparr>
         [Release 0, Release 0, Admit 2, Release 1, Release 2]
       = Some \<lparr>capacity = 2, phases = [Released, Released, Released]\<rparr>
   \<and> admissions [Release 0, Release 0, Admit 2, Release 1, Release 2] = 1
   \<and> waiting \<lparr>capacity = 2, phases = [Released, Released, Released]\<rparr> = 0
   \<and> admitted \<lparr>capacity = 2, phases = [Released, Released, Released]\<rparr> = 3
   \<and> Acquire_result \<lparr>capacity = 2, phases = [Released, Released, Released]\<rparr> 2 = Some (Inr 2)
   \<and> run (New 2 3) [Acquire 0, Acquire 1, Acquire 2, Release 0]
       = Some \<lparr>capacity = 2, phases = [Released, Holding, Waiting]\<rparr>
   \<and> step \<lparr>capacity = 2, phases = [Released, Holding, Waiting]\<rparr> (Admit 2)
       = Some \<lparr>capacity = 2, phases = [Released, Holding, Holding]\<rparr>
   \<and> step \<lparr>capacity = 2, phases = [Released, Holding, Waiting]\<rparr> (Release 1)
       = Some \<lparr>capacity = 2, phases = [Released, Released, Waiting]\<rparr>
   \<and> step \<lparr>capacity = 2, phases = [Holding, Holding, Waiting]\<rparr> (Cancel 2)
       = Some \<lparr>capacity = 2, phases = [Holding, Holding, Cancelled]\<rparr>
   \<and> run \<lparr>capacity = 2, phases = [Holding, Holding, Cancelled]\<rparr> [Release 1]
       = Some \<lparr>capacity = 2, phases = [Holding, Released, Cancelled]\<rparr>
   \<and> run \<lparr>capacity = 2, phases = [Holding, Released, Cancelled]\<rparr> [Admit 2] = None
   \<and> Acquire_result \<lparr>capacity = 2, phases = [Holding, Released, Cancelled]\<rparr> 2
       = Some (Inl ContextCanceled)"
proof -
  let ?evs = "[Acquire 0, Acquire 1, Acquire 2]"
  let ?later = "[Release 0, Release 0, Admit 2, Release 1, Release 2]"
  let ?g = "\<lparr>capacity = 2, phases = [Holding, Holding, Waiting]\<rparr>"
  let ?g1 = "\<lparr>capacity = 2, phases = [Holding, Holding, Cancelled]\<rparr>"
  let ?g2 = "\<lparr>capacity = 2, phases = [Holding, Released, Cancelled]\<rparr>"
  let ?g3 = "\<lparr>capacity = 2, phases = [Released, Released, Released]\<rparr>"
  let ?g4 = "\<lparr>capacity = 2, phases = [Released, Holding, Waiting]\<rparr>"
  have h1: "run (New 2 3) ?evs = Some ?g"
    by code_simp
  have h2: "\<forall>i<3. Acquire i \<in> set ?evs"
    by (simp add: numeral_3_eq_3 less_Suc_eq)
  have h3: "\<forall>ev \<in> set ?evs. \<not> is_Release ev"
    by simp
  have h3c: "\<forall>ev \<in> set ?evs. \<not> is_Cancel ev"
    by simp
  have h3l: "\<forall>ev \<in> set (?evs @ ?later). \<not> is_Cancel ev"
    by simp
  have h4: "step ?g (Cancel 2) = Some ?g1"
    by code_simp
  have h5: "run ?g1 [Release 1] = Some ?g2"
    by code_simp
  have h6: "run ?g ?later = Some ?g3"
    by code_simp
  have h7: "run (New 2 3) [Acquire 0, Acquire 1, Acquire 2, Release 0] = Some ?g4"
    by code_simp
  have h8: "phases ?g4 ! 2 = Waiting" "outstanding ?g4 < 2" "phases ?g4 ! 1 = Holding"
    by code_simp+
  have w3: "waiting ?g3 = 0"
    by code_simp
  note at_g = semaphore_bounded[where N = 2 and M = 3 and evs = ?evs and g = ?g and i = 2
        and ?g1.0 = ?g1 and evs' = "[Release 1]" and ?g2.0 = ?g2]
  note at_g4 = semaphore_bounded[where N = 2 and M = 3
        and evs = "[Acquire 0, Acquire 1, Acquire 2, Release 0]" and g = ?g4]
  have bound: "outstanding ?g \<le> 2"
    using at_g[THEN conjunct1] h1 by simp
  have full: "(2::nat) \<le> 3 \<and> run (New 2 3) ?evs = Some ?g \<and> (\<forall>i<3. Acquire i \<in> set ?evs)
      \<and> (\<forall>ev \<in> set ?evs. \<not> is_Release ev)"
    using h1 h2 h3 by simp
  note before = at_g[THEN conjunct2, THEN conjunct1, THEN mp, OF full]
  have b1: "admitted ?g = 2" "refused ?g = 3 - 2"
    using before by simp_all
  have b2: "waiting ?g = 3 - 2"
    using before h3c by blast
  have b3: "admitted ?g3 = 2 + admissions ?later"
    using before h6 by blast
  have b4: "admitted ?g3 = 3 \<and> admissions ?later = 3 - 2"
    using before h6 h3l w3 by blast
  have adm: "\<exists>g'. step ?g4 (Admit 2) = Some g' \<and> Acquire_result g' 2 = Some (Inr 2)
         \<and> outstanding g' = Suc (outstanding ?g4)"
    using at_g4[where i = 2, THEN conjunct2, THEN conjunct2, THEN conjunct1] h7 h8 by simp
  have rel: "\<exists>g'. step ?g4 (Release 1) = Some g' \<and> Suc (outstanding g') = outstanding ?g4
         \<and> step g' (Release 1) = Some g'"
    using at_g4[where i = 1, THEN conjunct2, THEN conjunct2, THEN conjunct2, THEN conjunct1] h7 h8
    by simp
  have can: "phases ?g2 ! 2 = Cancelled \<and> Acquire_result ?g2 2 = Some (Inl ContextCanceled)
      \<and> outstanding ?g1 = outstanding ?g"
    using at_g[THEN conjunct2, THEN conjunct2, THEN conjunct2, THEN conjunct2] h1 h4 h5 by simp
  have c1: "list_all (\<lambda>i. Acquire i \<in> set ?evs) [0, 1, 2]"
    by simp
  have c2: "list_all (\<lambda>ev. \<not> is_Release ev \<and> \<not> is_Cancel ev) ?evs"
    by simp
  have c3: "outstanding ?g = 2" "Acquire_result ?g3 2 = Some (Inr 2)"
    by code_simp+
  have c4: "step ?g4 (Admit 2) = Some \<lparr>capacity = 2, phases = [Released, Holding, Holding]\<rparr>"
    "step ?g4 (Release 1) = Some \<lparr>capacity = 2, phases = [Released, Released, Waiting]\<rparr>"
    by code_simp+
  have c5: "run ?g [Admit 2] = None" "run ?g2 [Admit 2] = None"
    by code_simp+
  from b1 b2 b4 have n: "admitted ?g = 2" "waiting ?g = 1" "admitted ?g3 = 3" "admissions ?later = 1"
    by simp_all
  from h1 c1 c2 c3(1) n(1,2) c5(1) h6 n(4) w3 n(3) c3(2) h7 c4 h4 h5 c5(2) can bound adm rel b3
  show ?thesis
    by (intro conjI) (simp_all only:)
qed

end
